theory Spec2Isabelle
  imports Complex_Main "HOL-Library.Code_Target_Nat"
begin

section \<open>The Backoff Invoker\<close>

text \<open>
  Two handlers of the repository wrap their outbound calls in a retry helper:
  \<^verbatim>\<open>exponentialBackoff\<close> of \<^verbatim>\<open>api/generate-report.js\<close> and \<^verbatim>\<open>fetchWithBackoff\<close> of the second
  handler file (\<^verbatim>\<open>part_000\<close>).

  An asynchronous operation is modelled by its script: the outcome of its \<open>n\<close>-th
  invocation, counted from 0. \<open>Inl e\<close> is a rejection with error \<open>e\<close>, \<open>Inr v\<close> a
  fulfilment with value \<open>v\<close>. A run of an invoker returns what the awaited promise
  settles to, together with a trace: how often the operation was invoked and the
  delays, in milliseconds and in order, handed to \<^verbatim>\<open>setTimeout\<close>. Console output is not
  part of the trace.
\<close>

record trace =
  calls :: nat
  slept :: "int list"

definition start :: trace where
  "start = \<lparr>calls = 0, slept = []\<rparr>"

definition invoked :: "trace \<Rightarrow> trace" where
  "invoked t = t\<lparr>calls := Suc (calls t)\<rparr>"

definition setTimeout :: "int \<Rightarrow> trace \<Rightarrow> trace" where
  "setTimeout ms t = t\<lparr>slept := slept t @ [ms]\<rparr>"

subsection \<open>exponentialBackoff (api/generate-report.js, lines 21 to 33)\<close>

text \<open>
  \<^verbatim>\<open>
  const exponentialBackoff = async (func, maxRetries = 5, delay = 1000) => {
      for (let i = 0; i < maxRetries; i++) {
          try {
              return await func();
          } catch (error) {
              if (i < maxRetries - 1) {
                  await new Promise(res => setTimeout(res, delay * (2 ** i)));
              } else {
                  throw error;
              }
          }
      }
  };
  \<close>
  A JavaScript function that falls off its end returns \<^verbatim>\<open>undefined\<close>; the values the
  operation fulfils with are therefore \<open>'a option\<close>, \<open>None\<close> being \<^verbatim>\<open>undefined\<close>.
  \<open>maxRetries\<close> and \<open>delay\<close> are integers.
\<close>

function exponentialBackoff_loop ::
  "(nat \<Rightarrow> 'e + 'a option) \<Rightarrow> int \<Rightarrow> int \<Rightarrow> nat \<Rightarrow> trace \<Rightarrow> ('e + 'a option) \<times> trace"
where
  "exponentialBackoff_loop func maxRetries delay i t =
     (if int i < maxRetries then
        (case func (calls t) of
           Inr v \<Rightarrow> (Inr v, invoked t)
         | Inl error \<Rightarrow>
             (if int i < maxRetries - 1
              then exponentialBackoff_loop func maxRetries delay (Suc i)
                     (setTimeout (delay * 2 ^ i) (invoked t))
              else (Inl error, invoked t)))
      else (Inr None, t))"
  by pat_completeness auto
termination
  by (relation "measure (\<lambda>(func, maxRetries, delay, i, t). nat (maxRetries - int i))") auto

definition exponentialBackoff ::
  "(nat \<Rightarrow> 'e + 'a option) \<Rightarrow> int \<Rightarrow> int \<Rightarrow> ('e + 'a option) \<times> trace"
where
  "exponentialBackoff func maxRetries delay = exponentialBackoff_loop func maxRetries delay 0 start"

declare exponentialBackoff_loop.simps [simp del]

subsection \<open>fetchWithBackoff (part_000, lines 59 to 79)\<close>

text \<open>
  The second invoker is tied to \<^verbatim>\<open>fetch\<close>. A fetch either rejects (a network-level
  failure) or fulfils with a response, whatever its status; \<^verbatim>\<open>response.ok\<close> holds for
  the statuses 200 to 299.
\<close>

datatype error =
    NetworkError string          \<comment> \<open>\<^verbatim>\<open>fetch\<close> rejected; the text is the runtime's\<close>
  | HttpError nat                \<comment> \<open>\<^verbatim>\<open>new Error(`HTTP error! status: ${response.status}`)\<close>\<close>
  | NoReportText                 \<comment> \<open>\<^verbatim>\<open>new Error('Failed to generate report text from Google AI.')\<close>\<close>
  | SaveFailed nat string string \<comment> \<open>\<^verbatim>\<open>new Error(`Failed to save report to Airtable: ${status} ${statusText} - ${errorText}`)\<close>\<close>
  | TypeError                    \<comment> \<open>raised by the runtime: a property read on \<^verbatim>\<open>undefined\<close> or \<^verbatim>\<open>null\<close>, a call of a non-function\<close>
  | SyntaxError                  \<comment> \<open>raised by \<^verbatim>\<open>response.json()\<close> on a body that is not JSON\<close>

datatype json_reply =
    NotJson                      \<comment> \<open>\<^verbatim>\<open>response.json()\<close> rejects\<close>
  | JsonNull                     \<comment> \<open>the body is the JSON value \<^verbatim>\<open>null\<close>\<close>
  | JsonDoc "string option"      \<comment> \<open>any other document, with what \<^verbatim>\<open>candidates?.[0]?.content?.parts?.[0]?.text\<close> reads in it\<close>

record response =
  status :: nat
  statusText :: string
  text_body :: string
  json_body :: json_reply

definition ok :: "response \<Rightarrow> bool" where
  "ok r = (200 \<le> status r \<and> status r \<le> 299)"

text \<open>
  \<^verbatim>\<open>
  const fetchWithBackoff = async (url, options, retries = 3, delay = 1000) => {
      try {
          const response = await fetch(url, options);
          if (!response.ok) {
              if (response.status === 429 && retries > 0) {
                  console.log(`Rate limit exceeded. Retrying in ${delay / 1000} seconds...`);
                  await new Promise(resolve => setTimeout(resolve, delay));
                  return fetchWithBackoff(url, options, retries - 1, delay * 2);
              }
              throw new Error(`HTTP error! status: ${response.status}`);
          }
          return response;
      } catch (error) {
          if (retries > 0) {
              console.log(`Fetch error. Retrying in ${delay / 1000} seconds...`);
              await new Promise(resolve => setTimeout(resolve, delay));
              return fetchWithBackoff(url, options, retries - 1, delay * 2);
          }
          throw error;
      }
  };
  \<close>
  The recursive calls are returned without \<^verbatim>\<open>await\<close>, so a rejection of the inner call
  is not caught by the \<^verbatim>\<open>catch\<close> of the outer one. The \<^verbatim>\<open>catch\<close> block sees the
  rejection of \<^verbatim>\<open>fetch\<close> and the error thrown for a response that is not ok.
\<close>

function fetchWithBackoff ::
  "(nat \<Rightarrow> error + response) \<Rightarrow> int \<Rightarrow> int \<Rightarrow> trace \<Rightarrow> (error + response) \<times> trace"
where
  "fetchWithBackoff fetch retries delay t =
     (case fetch (calls t) of
        Inr response \<Rightarrow>
          (if \<not> ok response then
             (if status response = 429 \<and> retries > 0
              then fetchWithBackoff fetch (retries - 1) (delay * 2) (setTimeout delay (invoked t))
              else \<comment> \<open>the thrown HTTP error lands in the catch block\<close>
                (if retries > 0
                 then fetchWithBackoff fetch (retries - 1) (delay * 2) (setTimeout delay (invoked t))
                 else (Inl (HttpError (status response)), invoked t)))
           else (Inr response, invoked t))
      | Inl error \<Rightarrow>
          (if retries > 0
           then fetchWithBackoff fetch (retries - 1) (delay * 2) (setTimeout delay (invoked t))
           else (Inl error, invoked t)))"
  by pat_completeness auto
termination
  by (relation "measure (\<lambda>(fetch, retries, delay, t). nat retries)") auto

declare fetchWithBackoff.simps [simp del]

text \<open>
  An attempt of \<^verbatim>\<open>fetchWithBackoff\<close> fails when \<^verbatim>\<open>fetch\<close> rejects or the response is not
  ok; the error the attempt ends with is the rejection, or the HTTP error made from the
  response's status.
\<close>

definition failed :: "error + response \<Rightarrow> bool" where
  "failed a = (case a of Inl e \<Rightarrow> True | Inr r \<Rightarrow> \<not> ok r)"

definition attempt_error :: "error + response \<Rightarrow> error" where
  "attempt_error a = (case a of Inl e \<Rightarrow> e | Inr r \<Rightarrow> HttpError (status r))"

section \<open>JavaScript values\<close>

text \<open>
  A field of the request body is absent (\<^verbatim>\<open>undefined\<close>), \<^verbatim>\<open>null\<close>, a boolean or text.
  The handlers read their figures as text (\<^verbatim>\<open>interval.includes\<close>, \<^verbatim>\<open>parseFloat(current)\<close>),
  and the request of the specification's scenario carries them as text; how the runtime
  prints a double is floating-point formatting, so numbers in the request body are
  outside this model. Text is a list of 8-bit characters.

  A number is a double: \<open>Fin r\<close> is the finite double whose value is the rational
  \<open>r\<close>, with \<open>Fin 0\<close> for \<open>+0\<close>, and \<open>NegZero\<close> is \<open>-0\<close>. Whatever is computed, a
  literal read from text or a quotient, becomes a number by \<open>number\<close> below, which rounds
  it to the nearest double.
\<close>

datatype field = Undefined | Null | Bool bool | Str string

datatype jsnum = NaN | Fin rat | NegZero | PosInf | NegInf

datatype jsval = Val field | Num jsnum

fun toString :: "field \<Rightarrow> string" where
  "toString Undefined = ''undefined''"
| "toString Null = ''null''"
| "toString (Bool b) = (if b then ''true'' else ''false'')"
| "toString (Str s) = s"

fun truthy :: "field \<Rightarrow> bool" where
  "truthy Undefined = False"
| "truthy Null = False"
| "truthy (Bool b) = b"
| "truthy (Str s) = (s \<noteq> [])"

fun truthy_num :: "jsnum \<Rightarrow> bool" where
  "truthy_num NaN = False"
| "truthy_num NegZero = False"
| "truthy_num (Fin r) = (r \<noteq> 0)"
| "truthy_num PosInf = True"
| "truthy_num NegInf = True"

definition isNaN :: "jsnum \<Rightarrow> bool" where
  "isNaN n = (n = NaN)"

text \<open>\<^verbatim>\<open>a || b\<close> on fields.\<close>

definition or_else :: "field \<Rightarrow> field \<Rightarrow> field" where
  "or_else a b = (if truthy a then a else b)"

subsection \<open>Rounding to a double\<close>

text \<open>
  The finite doubles are the numbers \<open>m * 2 ^ e\<close> with \<open>m\<close> an integer of magnitude
  below \<open>2 ^ 53\<close> and \<open>e\<close> from \<open>-1074\<close> to \<open>971\<close>. \<open>normalise x\<close> writes a positive
  rational \<open>x\<close> as \<open>s * 2 ^ e\<close> with \<open>2 ^ 52 \<le> s < 2 ^ 53\<close>; it stops at the exponent
  \<open>-1074\<close>, where \<open>s\<close> may be smaller (the subnormal numbers), and at the exponent
  \<open>972\<close>, which is beyond the largest double. Rounding \<open>s\<close> to an integer, a tie to
  the even one, gives the nearest double. This is round-to-nearest of IEEE 754: the
  rounding of the division operator and of the literals that \<^verbatim>\<open>parseFloat\<close>, \<^verbatim>\<open>parseInt\<close>
  and \<^verbatim>\<open>ToNumber\<close> read. (For a literal of more than 20 significant digits ECMAScript
  allows either neighbour; V8, the engine of Node.js, rounds to nearest throughout.)
\<close>

function scale_up :: "rat \<Rightarrow> int \<Rightarrow> rat \<times> int" where
  "scale_up x e = (if 2 ^ 52 \<le> x \<or> e \<le> - 1074 then (x, e) else scale_up (2 * x) (e - 1))"
  by pat_completeness auto

termination
  by (relation "measure (\<lambda>(x, e). nat (e + 1074))") simp_all

declare scale_up.simps [simp del]

function scale_down :: "rat \<Rightarrow> int \<Rightarrow> rat \<times> int" where
  "scale_down x e = (if x < 2 ^ 53 \<or> 972 \<le> e then (x, e) else scale_down (x / 2) (e + 1))"
  by pat_completeness auto

termination
  by (relation "measure (\<lambda>(x, e). nat (972 - e))") simp_all

declare scale_down.simps [simp del]

definition normalise :: "rat \<Rightarrow> rat \<times> int" where
  "normalise x = (if x < 2 ^ 53 then scale_up x 0 else scale_down x 0)"

definition pow2 :: "int \<Rightarrow> rat" where
  "pow2 e = (if 0 \<le> e then 2 ^ nat e else 1 / 2 ^ nat (- e))"

definition round_half_even :: "rat \<Rightarrow> int" where
  "round_half_even x =
     (let f = \<lfloor>x\<rfloor>; d = x - of_int f in
      if d < 1 / 2 then f else if 1 / 2 < d then f + 1 else if even f then f else f + 1)"

text \<open>
  \<open>nearest_double x\<close>, for \<open>x \<ge> 0\<close>, is the value of the double nearest to \<open>x\<close>, or
  a value from \<open>2 ^ 1024\<close> on when \<open>x\<close> rounds beyond the largest double.
  \<open>number neg m\<close> is the double of that sign nearest to the magnitude \<open>m\<close>: a zero when
  the magnitude rounds to 0, an infinity when it rounds beyond the largest double.
\<close>

definition nearest_double :: "rat \<Rightarrow> rat" where
  "nearest_double x =
     (if x = 0 then 0
      else (let (s, e) = normalise x in of_int (round_half_even s) * pow2 e))"

definition number :: "bool \<Rightarrow> rat \<Rightarrow> jsnum" where
  "number neg m =
     (let r = nearest_double m in
      if r = 0 then (if neg then NegZero else Fin 0)
      else if 2 ^ 1024 \<le> r then (if neg then NegInf else PosInf)
      else Fin (if neg then - r else r))"

subsection \<open>Reading numbers from text\<close>

text \<open>
  \<^verbatim>\<open>parseFloat\<close>, \<^verbatim>\<open>parseInt\<close> and the conversion \<^verbatim>\<open>ToNumber\<close> behind the division
  operator, as ECMAScript defines them. White space is the characters 9 to 13, 32 and 160.
\<close>

definition is_space :: "char \<Rightarrow> bool" where
  "is_space c = (let n = (of_char c :: nat) in (9 \<le> n \<and> n \<le> 13) \<or> n = 32 \<or> n = 160)"

definition digit_of :: "char \<Rightarrow> nat option" where
  "digit_of c =
     (let n = (of_char c :: nat) in
      if 48 \<le> n \<and> n \<le> 57 then Some (n - 48)
      else if 97 \<le> n \<and> n \<le> 102 then Some (n - 87)
      else if 65 \<le> n \<and> n \<le> 70 then Some (n - 55)
      else None)"

definition is_digit :: "nat \<Rightarrow> char \<Rightarrow> bool" where
  "is_digit radix c = (case digit_of c of Some d \<Rightarrow> d < radix | None \<Rightarrow> False)"

definition digits_value :: "nat \<Rightarrow> string \<Rightarrow> nat" where
  "digits_value radix ds =
     foldl (\<lambda>a c. radix * a + (case digit_of c of Some d \<Rightarrow> d | None \<Rightarrow> 0)) 0 ds"

definition sign_of :: "string \<Rightarrow> bool \<times> string" where
  "sign_of s =
     (case s of
        [] \<Rightarrow> (False, s)
      | c # r \<Rightarrow> if c = CHR ''-'' then (True, r) else if c = CHR ''+'' then (False, r) else (False, s))"

text \<open>
  \<open>ExponentPart s\<close> reads an exponent at the head of \<open>s\<close>: the power of ten it
  denotes and the rest of the text; without a complete exponent, the factor is 1 and
  nothing is consumed.
\<close>

definition ExponentPart :: "string \<Rightarrow> rat \<times> string" where
  "ExponentPart s =
     (case s of
        [] \<Rightarrow> (1, s)
      | c # r \<Rightarrow>
          if c = CHR ''e'' \<or> c = CHR ''E'' then
            (let (neg, x) = sign_of r; ds = takeWhile (is_digit 10) x in
             if ds = [] then (1, s)
             else (if neg then 1 / 10 ^ digits_value 10 ds else 10 ^ digits_value 10 ds,
                   dropWhile (is_digit 10) x))
          else (1, s))"

text \<open>
  \<open>StrDecimalLiteral s\<close> reads the longest decimal literal at the head of \<open>s\<close>:
  a sign, then \<^verbatim>\<open>Infinity\<close>, or digits with an optional fraction and exponent.
  The result is the double nearest to the literal's value, and \<open>NaN\<close> when there is no
  literal.
\<close>

definition StrDecimalLiteral :: "string \<Rightarrow> jsnum \<times> string" where
  "StrDecimalLiteral s =
     (let (neg, u) = sign_of s in
      if take 8 u = ''Infinity'' then (if neg then NegInf else PosInf, drop 8 u)
      else
        (let ip = takeWhile (is_digit 10) u;
             r1 = dropWhile (is_digit 10) u;
             (fp, r2) = (case r1 of
                           [] \<Rightarrow> ([], r1)
                         | c # v \<Rightarrow> if c = CHR ''.''
                                    then (takeWhile (is_digit 10) v, dropWhile (is_digit 10) v)
                                    else ([], r1))
         in if ip = [] \<and> fp = [] then (NaN, s)
            else
              (let (f, r3) = ExponentPart r2 in
               (number neg ((of_nat (digits_value 10 ip)
                             + of_nat (digits_value 10 fp) / 10 ^ length fp) * f), r3))))"

definition parseFloat_text :: "string \<Rightarrow> jsnum" where
  "parseFloat_text s = fst (StrDecimalLiteral (dropWhile is_space s))"

definition parseFloat :: "field \<Rightarrow> jsnum" where
  "parseFloat v = parseFloat_text (toString v)"

text \<open>
  \<^verbatim>\<open>parseFloat\<close> of a number prints the number and reads it back, which gives the number
  again, \<open>-0\<close> excepted: it prints as \<^verbatim>\<open>0\<close>.
\<close>

definition parseFloat_number :: "jsnum \<Rightarrow> jsnum" where
  "parseFloat_number n = (if n = NegZero then Fin 0 else n)"

text \<open>\<^verbatim>\<open>parseInt\<close> without a radix: hexadecimal after \<^verbatim>\<open>0x\<close>, decimal otherwise.\<close>

definition parseInt_text :: "string \<Rightarrow> jsnum" where
  "parseInt_text s =
     (let (neg, u) = sign_of (dropWhile is_space s);
          hex = (take 2 u = ''0x'' \<or> take 2 u = ''0X'');
          radix = (if hex then 16 else 10);
          ds = takeWhile (is_digit radix) (if hex then drop 2 u else u)
      in if ds = [] then NaN else number neg (of_nat (digits_value radix ds)))"

definition parseInt :: "field \<Rightarrow> jsnum" where
  "parseInt v = parseInt_text (toString v)"

text \<open>
  \<^verbatim>\<open>ToNumber\<close> of text: the whole text, white space at both ends apart, must be a
  numeric literal; the empty text is 0.
\<close>

definition trim :: "string \<Rightarrow> string" where
  "trim s = rev (dropWhile is_space (rev (dropWhile is_space s)))"

definition StringToNumber :: "string \<Rightarrow> jsnum" where
  "StringToNumber s =
     (let t = trim s;
          p = take 2 t;
          radix = (if p = ''0x'' \<or> p = ''0X'' then 16
                   else if p = ''0o'' \<or> p = ''0O'' then 8
                   else if p = ''0b'' \<or> p = ''0B'' then 2 else 10)
      in if t = [] then Fin 0
         else if radix \<noteq> 10 then
           (if drop 2 t \<noteq> [] \<and> list_all (is_digit radix) (drop 2 t)
            then number False (of_nat (digits_value radix (drop 2 t))) else NaN)
         else (case StrDecimalLiteral t of (v, rest) \<Rightarrow> if rest = [] then v else NaN))"

fun ToNumber :: "field \<Rightarrow> jsnum" where
  "ToNumber Undefined = NaN"
| "ToNumber Null = Fin 0"
| "ToNumber (Bool b) = (if b then Fin 1 else Fin 0)"
| "ToNumber (Str s) = StringToNumber s"

text \<open>
  Division of doubles: the special cases of IEEE 754, and otherwise the double nearest to
  the quotient.
\<close>

fun negative :: "jsnum \<Rightarrow> bool" where
  "negative (Fin r) = (r < 0)"
| "negative NegZero = True"
| "negative NegInf = True"
| "negative _ = False"

fun infinite_num :: "jsnum \<Rightarrow> bool" where
  "infinite_num PosInf = True"
| "infinite_num NegInf = True"
| "infinite_num _ = False"

fun magnitude :: "jsnum \<Rightarrow> rat" where
  "magnitude (Fin r) = \<bar>r\<bar>"
| "magnitude _ = 0"

definition divide_num :: "jsnum \<Rightarrow> jsnum \<Rightarrow> jsnum" where
  "divide_num a b =
     (if a = NaN \<or> b = NaN then NaN
      else
        (let neg = (negative a \<noteq> negative b) in
         if infinite_num a then (if infinite_num b then NaN else if neg then NegInf else PosInf)
         else if infinite_num b then (if neg then NegZero else Fin 0)
         else if magnitude b = 0 then
           (if magnitude a = 0 then NaN else if neg then NegInf else PosInf)
         else number neg (magnitude a / magnitude b)))"

subsection \<open>Text operations\<close>

definition starts_with :: "string \<Rightarrow> string \<Rightarrow> bool" where
  "starts_with s p = (take (length p) s = p)"

text \<open>\<^verbatim>\<open>s.includes(p)\<close>\<close>

fun js_includes :: "string \<Rightarrow> string \<Rightarrow> bool" where
  "js_includes [] p = (p = [])"
| "js_includes (c # cs) p = (starts_with (c # cs) p \<or> js_includes cs p)"

text \<open>\<^verbatim>\<open>s.replace(p, r)\<close> with a text pattern: the first occurrence only.\<close>

fun js_replace :: "string \<Rightarrow> string \<Rightarrow> string \<Rightarrow> string" where
  "js_replace [] p r = (if p = [] then r else [])"
| "js_replace (c # cs) p r =
     (if starts_with (c # cs) p then r @ drop (length p) (c # cs) else c # js_replace cs p r)"

text \<open>\<^verbatim>\<open>s.split(c)\<close> with a separator of one character.\<close>

fun js_split :: "string \<Rightarrow> char \<Rightarrow> string list" where
  "js_split [] c = [[]]"
| "js_split (x # xs) c =
     (if x = c then [] # js_split xs c
      else (case js_split xs c of [] \<Rightarrow> [[x]] | p # ps \<Rightarrow> (x # p) # ps))"

text \<open>\<^verbatim>\<open>xs[0]\<close>: the first element, or \<^verbatim>\<open>undefined\<close>.\<close>

definition first :: "string list \<Rightarrow> field" where
  "first xs = (case xs of [] \<Rightarrow> Undefined | x # _ \<Rightarrow> Str x)"

section \<open>Requests, configuration and the outside world\<close>

text \<open>
  The Deployment Report Request is the JSON body of the HTTP request; both handlers
  destructure the same twelve fields from it. \<open>req_body\<close> is \<open>None\<close> when
  \<^verbatim>\<open>req.body\<close> is \<^verbatim>\<open>undefined\<close> or \<^verbatim>\<open>null\<close>.
\<close>

record report_request =
  current :: field
  angle :: field
  riverWidth :: field
  riverMile :: field
  calculatedBoomLength :: field
  tension :: field
  interval :: field
  driftTime :: field
  isCascade :: field
  segments :: field
  anchors :: field
  anchorDetailsText :: field

record request =
  req_method :: string
  req_body :: "report_request option"

definition POST :: "report_request \<Rightarrow> request" where
  "POST b = \<lparr>req_method = ''POST'', req_body = Some b\<rparr>"

text \<open>
  \<^verbatim>\<open>process.env\<close> is a map from names to text. \<^verbatim>\<open>!v\<close> holds of a variable that is not
  set or is set to the empty text; a variable that is not set prints as \<^verbatim>\<open>undefined\<close>
  in a template.
\<close>

type_synonym env = "string \<Rightarrow> string option"

definition unset :: "string option \<Rightarrow> bool" where
  "unset v = (case v of None \<Rightarrow> True | Some s \<Rightarrow> s = [])"

definition shown :: "string option \<Rightarrow> string" where
  "shown v = (case v of None \<Rightarrow> ''undefined'' | Some s \<Rightarrow> s)"

text \<open>
  The two external services are given by the scripts of their answers: what the \<open>n\<close>-th
  \<^verbatim>\<open>fetch\<close> to the service settles to. \<open>clock\<close> is what \<^verbatim>\<open>new Date().toISOString()\<close>
  returns.
\<close>

record world =
  gemini :: "nat \<Rightarrow> error + response"
  airtable :: "nat \<Rightarrow> error + response"
  clock :: string

text \<open>
  A script that starts with the outcomes \<open>xs\<close> and goes on with \<open>d\<close> for ever.
\<close>

definition script :: "'a list \<Rightarrow> 'a \<Rightarrow> nat \<Rightarrow> 'a" where
  "script xs d n = (if n < length xs then xs ! n else d)"

text \<open>
  What a handler run does: the HTTP status and JSON body it answers with, the outbound
  calls to the generation service and to the persistence service in order, and the
  delays it waited. In the answer, \<open>MessageOf e\<close> is \<^verbatim>\<open>error.message\<close> of the error \<open>e\<close>.
  The body of a persistence call is the record's fields as \<^verbatim>\<open>JSON.stringify\<close> writes
  them: a field that is \<^verbatim>\<open>undefined\<close> is left out, and \<^verbatim>\<open>NaN\<close> and the infinities are
  written \<^verbatim>\<open>null\<close>.
\<close>

datatype json = JNull | JBool bool | JNumber rat | JString string

fun json_of :: "jsval \<Rightarrow> json option" where
  "json_of (Val Undefined) = None"
| "json_of (Val Null) = Some JNull"
| "json_of (Val (Bool b)) = Some (JBool b)"
| "json_of (Val (Str s)) = Some (JString s)"
| "json_of (Num (Fin r)) = Some (JNumber r)"
| "json_of (Num NegZero) = Some (JNumber 0)"
| "json_of (Num NaN) = Some JNull"
| "json_of (Num PosInf) = Some JNull"
| "json_of (Num NegInf) = Some JNull"

definition JSON_stringify :: "(string \<times> jsval) list \<Rightarrow> (string \<times> json) list" where
  "JSON_stringify fs = List.map_filter (\<lambda>(k, v). map_option (Pair k) (json_of v)) fs"

record generation_call =
  gen_url :: string
  gen_prompt :: string
  gen_system :: string
  gen_search :: bool

record persistence_call =
  rec_url :: string
  rec_authorization :: string
  rec_fields :: "(string \<times> json) list"

datatype reply_value = Text string | Flag bool | MessageOf error

record outcome =
  res_status :: nat
  res_json :: "(string \<times> reply_value) list"
  generation_log :: "generation_call list"
  persistence_log :: "persistence_call list"
  delays :: "int list"

section \<open>The handler of api/generate-report.js\<close>

definition GOOGLE_AI_API_URL :: string where
  \<open>GOOGLE_AI_API_URL = ''https://generativelanguage.googleapis.com/v1beta/models/gemini-2.5-flash-preview-05-20:generateContent''\<close>

definition AIRTABLE_API_URL :: "env \<Rightarrow> string" where
  \<open>AIRTABLE_API_URL env =
     ''https://api.airtable.com/v0/'' @ shown (env ''AIRTABLE_BASE_ID'') @ ''/'' @ shown (env ''AIRTABLE_TABLE_ID'')\<close>

text \<open>The prompt, lines 58 to 86.\<close>

definition prompt :: "report_request \<Rightarrow> string" where
  \<open>prompt b = concat [
      ''\<newline>'',
      ''            You are a subject matter expert on boom deployment for environmental response.\<newline>'',
      ''            Your task is to generate a professional, concise, and easy-to-read report\<newline>'',
      ''            on a geographic response strategy for a diesel fuel spill.\<newline>'',
      ''\<newline>'',
      ''            The report should be a single, well-structured paragraph that includes the following information:\<newline>'',
      ''            - A professional salutation.\<newline>'',
      ''            - A summary of the deployment conditions (river mile, current, river width, boom angle, drift time if available).\<newline>'',
      ''            - The calculated boom length required and the estimated tension.\<newline>'',
      ''            - The recommended anchor interval and total number of anchors.\<newline>'',
      ''            - A clear recommendation on whether a single boom or a cascade booming system is required, and if so, how many segments.\<newline>'',
      ''            - A professional closing.\<newline>'',
      ''\<newline>'',
      ''            Here are the details for the report:\<newline>'',
      ''            - River Mile: '',
      toString (or_else (riverMile b) (Str ''Not specified'')),
      ''\<newline>'',
      ''            - River Current: '',
      toString (current b),
      '' knots\<newline>'',
      ''            - River Width: '',
      toString (riverWidth b),
      '' ft\<newline>'',
      ''            - Boom Angle: '',
      toString (angle b),
      '' degrees\<newline>'',
      ''            - Calculated Boom Length: '',
      toString (calculatedBoomLength b),
      '' ft\<newline>'',
      ''            - Estimated Tension: '',
      toString (tension b),
      '' lbs\<newline>'',
      ''            - Recommended Anchor Interval: '',
      toString (interval b),
      ''\<newline>'',
      ''            - Drift Time (for 100ft): '',
      toString (or_else (driftTime b) (Str ''Not measured'')),
      '' seconds\<newline>'',
      ''            - Is Cascade Booming System Recommended?: '',
      (if truthy (isCascade b) then ''Yes'' else ''No''),
      ''\<newline>'',
      ''            - Total segments (if cascade): '',
      (if truthy (isCascade b) then toString (segments b) else ''1''),
      ''\<newline>'',
      ''            - Total anchors required: '',
      toString (anchors b),
      ''\<newline>'',
      ''            - Anchor details: '',
      toString (anchorDetailsText b),
      ''\<newline>'',
      ''            - Spill Type: Diesel Fuel\<newline>'',
      ''            - Location: Tennessee Valley Authority waterway\<newline>'',
      ''        '']\<close>

definition systemInstruction :: string where
  \<open>systemInstruction = ''Act as an expert environmental response consultant. Provide a concise, single-paragraph report based on the provided data.''\<close>

text \<open>
  The record, lines 112 to 129:
  \<^verbatim>\<open>
  "Report": generatedText,
  "Current": parseFloat(current),
  "Angle": parseFloat(angle),
  "River Width": parseFloat(riverWidth),
  "River Mile": riverMile,
  "Boom Length": parseFloat(calculatedBoomLength),
  "Seg Length": parseFloat(calculatedBoomLength / segments),
  "Anchor Interval": parseInt(interval),
  "Drift Time": parseFloat(driftTime) || null,
  "Segments": isCascade ? segments : 1,
  "Anchors": anchors,
  \<close>
\<close>

definition gr_airtablePayload :: "report_request \<Rightarrow> string \<Rightarrow> (string \<times> jsval) list" where
  \<open>gr_airtablePayload b generatedText =
     [(''Report'', Val (Str generatedText)),
      (''Current'', Num (parseFloat (current b))),
      (''Angle'', Num (parseFloat (angle b))),
      (''River Width'', Num (parseFloat (riverWidth b))),
      (''River Mile'', Val (riverMile b)),
      (''Boom Length'', Num (parseFloat (calculatedBoomLength b))),
      (''Seg Length'',
         Num (parseFloat_number (divide_num (ToNumber (calculatedBoomLength b)) (ToNumber (segments b))))),
      (''Anchor Interval'', Num (parseInt (interval b))),
      (''Drift Time'',
         (if truthy_num (parseFloat (driftTime b)) then Num (parseFloat (driftTime b)) else Val Null)),
      (''Segments'', (if truthy (isCascade b) then Val (segments b) else Num (Fin 1))),
      (''Anchors'', Val (anchors b))]\<close>

text \<open>The answer of the \<^verbatim>\<open>catch\<close> block, lines 149 to 152.\<close>

definition gr_failure ::
  "error \<Rightarrow> generation_call list \<Rightarrow> persistence_call list \<Rightarrow> int list \<Rightarrow> outcome" where
  \<open>gr_failure e glog plog ds =
     \<lparr>res_status = 500,
      res_json = [(''message'', Text ''An unexpected error occurred.''), (''error'', MessageOf e)],
      generation_log = glog, persistence_log = plog, delays = ds\<rparr>\<close>

text \<open>
  Step 2, lines 111 to 147: save the generated report. \<open>glog\<close> and \<open>ds\<close> are the calls
  and delays of step 1.
\<close>

definition gr_save ::
  "env \<Rightarrow> world \<Rightarrow> report_request \<Rightarrow> string \<Rightarrow> generation_call list \<Rightarrow> int list \<Rightarrow> outcome" where
  \<open>gr_save env w b generatedText glog ds =
     (let call = \<lparr>rec_url = AIRTABLE_API_URL env,
                  rec_authorization = ''Bearer '' @ shown (env ''AIRTABLE_API_KEY''),
                  rec_fields = JSON_stringify (gr_airtablePayload b generatedText)\<rparr>;
          (result, t) = exponentialBackoff (\<lambda>n. map_sum id Some (airtable w n)) 5 1000;
          plog = replicate (calls t) call;
          ds' = ds @ slept t
      in case result of
           Inl e \<Rightarrow> gr_failure e glog plog ds'
         | Inr None \<Rightarrow> gr_failure TypeError glog plog ds'
         | Inr (Some airtableResponse) \<Rightarrow>
             if \<not> ok airtableResponse
             then gr_failure (SaveFailed (status airtableResponse) (statusText airtableResponse)
                                (text_body airtableResponse)) glog plog ds'
             else \<lparr>res_status = 200, res_json = [(''reportText'', Text generatedText)],
                   generation_log = glog, persistence_log = plog, delays = ds'\<rparr>)\<close>

text \<open>
  The handler, lines 36 to 153. Nothing in it looks at the configuration: the keys only go
  into the URLs and the authorization header of the outbound calls.
\<close>

definition gr_handler :: "env \<Rightarrow> world \<Rightarrow> request \<Rightarrow> outcome" where
  \<open>gr_handler env w req =
     (if req_method req \<noteq> ''POST''
      then \<lparr>res_status = 405, res_json = [(''message'', Text ''Method Not Allowed'')],
            generation_log = [], persistence_log = [], delays = []\<rparr>
      else
        (case req_body req of
           None \<Rightarrow> gr_failure TypeError [] [] []
         | Some b \<Rightarrow>
             (let call = \<lparr>gen_url = GOOGLE_AI_API_URL @ ''?key='' @ shown (env ''GOOGLE_API_KEY''),
                          gen_prompt = prompt b, gen_system = systemInstruction, gen_search = True\<rparr>;
                  (result, t) = exponentialBackoff (\<lambda>n. map_sum id Some (gemini w n)) 5 1000;
                  glog = replicate (calls t) call
              in case result of
                   Inl e \<Rightarrow> gr_failure e glog [] (slept t)
                 | Inr None \<Rightarrow> gr_failure TypeError glog [] (slept t)
                 | Inr (Some googleAiResponse) \<Rightarrow>
                     (case json_body googleAiResponse of
                        NotJson \<Rightarrow> gr_failure SyntaxError glog [] (slept t)
                      | JsonNull \<Rightarrow> gr_failure TypeError glog [] (slept t)
                      | JsonDoc generatedText \<Rightarrow>
                          (case generatedText of
                             None \<Rightarrow> gr_failure NoReportText glog [] (slept t)
                           | Some txt \<Rightarrow>
                               if txt = [] then gr_failure NoReportText glog [] (slept t)
                               else gr_save env w b txt glog (slept t))))))\<close>

section \<open>The handler of part_000\<close>

text \<open>
  The user query, lines 35 to 54. \<open>cascadeClause\<close> names the conditional sentence of its
  last line:
  \<^verbatim>\<open>${isCascade ? `The deployment will utilize a cascade booming system with ${segments} segments.` : ''}\<close>
\<close>

definition cascadeClause :: "report_request \<Rightarrow> string" where
  \<open>cascadeClause b =
     (if truthy (isCascade b)
      then ''The deployment will utilize a cascade booming system with '' @ toString (segments b) @ '' segments.''
      else [])\<close>

definition userQuery :: "report_request \<Rightarrow> string" where
  \<open>userQuery b = concat [
      ''Write a detailed operational plan for a deployment report using the following format and data:\<newline>'',
      ''        \<newline>'',
      ''        Deployment Report\<newline>'',
      ''        Prepared for: TVA Emergency Management\<newline>'',
      ''        Subject: Geographic Response Strategy for River Mile '',
      toString (riverMile b),
      ''\<newline>'',
      ''        \<newline>'',
      ''        Operational Plan:\<newline>'',
      ''        \<newline>'',
      ''        Location: River Mile '',
      toString (riverMile b),
      ''\<newline>'',
      ''        River Width: '',
      toString (riverWidth b),
      '' feet\<newline>'',
      ''        Drift Time: '',
      toString (driftTime b),
      '' seconds\<newline>'',
      ''        Current: '',
      toString (current b),
      '' knots\<newline>'',
      ''        Max Boom Deflection Angle: '',
      toString (angle b),
      '' degrees\<newline>'',
      ''        Boom Required: '',
      toString (calculatedBoomLength b),
      '' feet\<newline>'',
      ''        Estimated Tension: '',
      toString (tension b),
      '' pounds per 100 ft of boom profile\<newline>'',
      ''        Recommended Anchor Interval: '',
      toString (interval b),
      ''\<newline>'',
      ''        \<newline>'',
      ''        '',
      toString (anchorDetailsText b),
      '' \<newline>'',
      ''        \<newline>'',
      ''        '',
      cascadeClause b,
      '' The deployment will use a 22-pound Danforth anchor. Please ensure all measurements and values in the report are presented in imperial units (e.g., feet, knots, pounds). Do not include any mention of a diagram, sketch, or formal email headings like "Prepared For" or "Subject" in the report text itself.'']\<close>

definition systemPrompt :: string where
  \<open>systemPrompt = ''You are an expert oil spill response specialist. Your task is to write the body of a detailed, professional, and concise deployment report based on the provided data. The body should describe the operational plan, highlight key safety considerations, and explain the physical principles at play. Do not mention that you are an AI or language model. Respond in a formal, informative tone. Do not use an emoji.''\<close>

text \<open>
  The interval, lines 104 to 112:
  \<^verbatim>\<open>
  let intervalValueForAirtable;
  if (interval.includes('+')) {
      intervalValueForAirtable = parseFloat(interval.replace('+', ''));
  } else if (interval.includes('per')) {
      intervalValueForAirtable = parseFloat(interval.split(' ')[0]);
  } else {
      intervalValueForAirtable = parseFloat(interval);
  }
  \<close>
  Only text has the method \<^verbatim>\<open>includes\<close>: on any other field the first test raises a
  \<^verbatim>\<open>TypeError\<close>.
\<close>

definition intervalValueForAirtable :: "field \<Rightarrow> error + jsnum" where
  \<open>intervalValueForAirtable v =
     (case v of
        Str s \<Rightarrow>
          Inr (if js_includes s ''+'' then parseFloat (Str (js_replace s ''+'' []))
               else if js_includes s ''per'' then parseFloat (first (js_split s (CHR '' '')))
               else parseFloat (Str s))
      | _ \<Rightarrow> Inl TypeError)\<close>

text \<open>
  The record, lines 96 to 133:
  \<^verbatim>\<open>
  'River Mile': riverMile || 'N/A',
  'Current': isNaN(currentNum) ? null : currentNum,
  'Boom Required (ft)': isNaN(boomLengthNum) ? null : boomLengthNum,
  'Angle': isNaN(angleNum) ? null : angleNum,
  'Tension': tension,
  'Anchors': isNaN(anchorsNum) ? null : anchorsNum,
  'Anchor Interval': isNaN(intervalValueForAirtable) ? null : intervalValueForAirtable,
  'River Width (ft)': isNaN(riverWidthNum) ? null : riverWidthNum,
  'Drift Time (sec)': driftTime,
  'Generated Report': generatedText,
  'Report Date': new Date().toISOString().split('T')[0],
  'Cascade System?': isCascade,
  'Segments': isCascade ? segmentsNum : null,
  \<close>
  \<open>nullIfNaN x\<close> is \<^verbatim>\<open>isNaN(x) ? null : x\<close>.
\<close>

definition nullIfNaN :: "jsnum \<Rightarrow> jsval" where
  "nullIfNaN x = (if isNaN x then Val Null else Num x)"

definition p0_airtablePayload ::
  "report_request \<Rightarrow> string \<Rightarrow> jsnum \<Rightarrow> string \<Rightarrow> (string \<times> jsval) list" where
  \<open>p0_airtablePayload b generatedText intervalValue now =
     (let currentNum = parseFloat (current b);
          boomLengthNum = parseFloat (calculatedBoomLength b);
          angleNum = parseFloat (angle b);
          anchorsNum = parseFloat (anchors b);
          segmentsNum = parseFloat (segments b);
          riverWidthNum = parseFloat (riverWidth b)
      in [(''River Mile'', Val (or_else (riverMile b) (Str ''N/A''))),
          (''Current'', nullIfNaN currentNum),
          (''Boom Required (ft)'', nullIfNaN boomLengthNum),
          (''Angle'', nullIfNaN angleNum),
          (''Tension'', Val (tension b)),
          (''Anchors'', nullIfNaN anchorsNum),
          (''Anchor Interval'', nullIfNaN intervalValue),
          (''River Width (ft)'', nullIfNaN riverWidthNum),
          (''Drift Time (sec)'', Val (driftTime b)),
          (''Generated Report'', Val (Str generatedText)),
          (''Report Date'', Val (first (js_split now (CHR ''T'')))),
          (''Cascade System?'', Val (isCascade b)),
          (''Segments'', (if truthy (isCascade b) then Num segmentsNum else Val Null))])\<close>

text \<open>The answer of the \<^verbatim>\<open>catch\<close> block, lines 147 to 150.\<close>

definition p0_failure ::
  "error \<Rightarrow> generation_call list \<Rightarrow> persistence_call list \<Rightarrow> int list \<Rightarrow> outcome" where
  \<open>p0_failure e glog plog ds =
     \<lparr>res_status = 500,
      res_json = [(''message'', Text ''Failed to generate or save the report.''), (''error'', MessageOf e)],
      generation_log = glog, persistence_log = plog, delays = ds\<rparr>\<close>

text \<open>
  Step 2, lines 96 to 145: build the record and save it. \<open>glog\<close> and \<open>ds\<close> are the calls
  and delays of step 1.
\<close>

definition p0_save ::
  "env \<Rightarrow> world \<Rightarrow> report_request \<Rightarrow> string \<Rightarrow> generation_call list \<Rightarrow> int list \<Rightarrow> outcome" where
  \<open>p0_save env w b generatedText glog ds =
     (case intervalValueForAirtable (interval b) of
        Inl e \<Rightarrow> p0_failure e glog [] ds
      | Inr intervalValue \<Rightarrow>
          (let call = \<lparr>rec_url = ''https://api.airtable.com/v0/'' @ shown (env ''AIRTABLE_BASE_ID'')
                                   @ ''/'' @ shown (env ''AIRTABLE_TABLE_ID''),
                       rec_authorization = ''Bearer '' @ shown (env ''AIRTABLE_API_KEY''),
                       rec_fields = JSON_stringify
                                      (p0_airtablePayload b generatedText intervalValue (clock w))\<rparr>;
               (result, t) = fetchWithBackoff (airtable w) 3 1000 start;
               plog = replicate (calls t) call;
               ds' = ds @ slept t
           in case result of
                Inl e \<Rightarrow> p0_failure e glog plog ds'
              | Inr airtableResponse \<Rightarrow>
                  \<lparr>res_status = 200,
                   res_json = [(''success'', Flag True), (''message'', Text ''Report generated and saved!''),
                               (''reportText'', Text generatedText)],
                   generation_log = glog, persistence_log = plog, delays = ds'\<rparr>))\<close>

text \<open>
  The handler, lines 8 to 151. \<open>missingEnvironment\<close> is the test of line 26,
  \<^verbatim>\<open>!airtableApiKey || !airtableBaseId || !airtableTableId || !geminiApiKey\<close>. The text of
  the report is the first candidate's text, or the fixed fallback when that is missing or
  empty.
\<close>

definition missingEnvironment :: "env \<Rightarrow> bool" where
  \<open>missingEnvironment env =
     (unset (env ''AIRTABLE_API_KEY'') \<or> unset (env ''AIRTABLE_BASE_ID'')
      \<or> unset (env ''AIRTABLE_TABLE_ID'') \<or> unset (env ''GEMINI_API_KEY''))\<close>

definition fallbackText :: string where
  \<open>fallbackText = ''Could not generate report. Please try again.''\<close>

definition p0_handler :: "env \<Rightarrow> world \<Rightarrow> request \<Rightarrow> outcome" where
  \<open>p0_handler env w req =
     (if req_method req \<noteq> ''POST''
      then \<lparr>res_status = 405, res_json = [(''message'', Text ''Method Not Allowed'')],
            generation_log = [], persistence_log = [], delays = []\<rparr>
      else
        (case req_body req of
           None \<Rightarrow> p0_failure TypeError [] [] []
         | Some b \<Rightarrow>
             if missingEnvironment env
             then \<lparr>res_status = 500,
                   res_json = [(''error'', Text ''Missing environment variables. Please check your Vercel settings.'')],
                   generation_log = [], persistence_log = [], delays = []\<rparr>
             else
               (let call = \<lparr>gen_url = ''https://generativelanguage.googleapis.com/v1beta/models/gemini-2.5-flash-preview-05-20:generateContent?key=''
                                        @ shown (env ''GEMINI_API_KEY''),
                            gen_prompt = userQuery b, gen_system = systemPrompt, gen_search = False\<rparr>;
                    (result, t) = fetchWithBackoff (gemini w) 3 1000 start;
                    glog = replicate (calls t) call
                in case result of
                     Inl e \<Rightarrow> p0_failure e glog [] (slept t)
                   | Inr geminiResponse \<Rightarrow>
                       (case json_body geminiResponse of
                          NotJson \<Rightarrow> p0_failure SyntaxError glog [] (slept t)
                        | JsonNull \<Rightarrow> p0_save env w b fallbackText glog (slept t)
                        | JsonDoc generatedText \<Rightarrow>
                            p0_save env w b
                              (case generatedText of
                                 None \<Rightarrow> fallbackText
                               | Some txt \<Rightarrow> if txt = [] then fallbackText else txt)
                              glog (slept t)))))\<close>


section \<open>Example inputs\<close>

text \<open>
  The request of the end-to-end scenario, an answer of a service with a given status and
  JSON document, and a complete configuration.
\<close>

abbreviation scenario :: report_request where
  "scenario \<equiv> \<lparr>current = Str ''2.5'', angle = Str ''30'', riverWidth = Str ''300'',
     riverMile = Str ''45'', calculatedBoomLength = Str ''350'', tension = Str ''1200'',
     interval = Str ''150+'', driftTime = Str ''40'', isCascade = Bool True, segments = Str ''2'',
     anchors = Str ''5'', anchorDetailsText = Str ''...''\<rparr>"

abbreviation answer :: "nat \<Rightarrow> json_reply \<Rightarrow> error + response" where
  "answer code doc \<equiv> Inr \<lparr>status = code, statusText = [], text_body = [], json_body = doc\<rparr>"

abbreviation settings :: env where
  "settings \<equiv> [''GEMINI_API_KEY'' \<mapsto> ''g'', ''GOOGLE_API_KEY'' \<mapsto> ''g'', ''AIRTABLE_API_KEY'' \<mapsto> ''a'',
     ''AIRTABLE_BASE_ID'' \<mapsto> ''base'', ''AIRTABLE_TABLE_ID'' \<mapsto> ''table'']"


section \<open>Properties of the Backoff Invoker\<close>

lemma loop_skips_failures:
  assumes "\<forall>j<k. \<exists>e. func (calls t + j) = Inl e" and "int (i + k) < maxRetries"
  shows "exponentialBackoff_loop func maxRetries delay i t =
         exponentialBackoff_loop func maxRetries delay (i + k)
           \<lparr>calls = calls t + k, slept = slept t @ map (\<lambda>j. delay * 2 ^ j) [i..<i + k]\<rparr>"
  using assms
proof (induction k arbitrary: i t)
  case 0
  then show ?case by (cases t) simp
next
  case (Suc k)
  from Suc.prems(1) obtain e where e: "func (calls t) = Inl e" by force
  let ?t = "setTimeout (delay * 2 ^ i) (invoked t)"
  have step: "exponentialBackoff_loop func maxRetries delay i t =
              exponentialBackoff_loop func maxRetries delay (Suc i) ?t"
    using e Suc.prems(2) by (subst exponentialBackoff_loop.simps) simp
  have "\<forall>j<k. \<exists>e. func (calls ?t + j) = Inl e"
    using Suc.prems(1) by (auto simp: setTimeout_def invoked_def)
  moreover have "int (Suc i + k) < maxRetries" using Suc.prems(2) by simp
  ultimately have ih: "exponentialBackoff_loop func maxRetries delay (Suc i) ?t =
         exponentialBackoff_loop func maxRetries delay (Suc i + k)
           \<lparr>calls = calls ?t + k, slept = slept ?t @ map (\<lambda>j. delay * 2 ^ j) [Suc i..<Suc i + k]\<rparr>"
    by (rule Suc.IH)
  have "[i..<i + Suc k] = i # [Suc i..<Suc i + k]"
    by (simp add: upt_conv_Cons)
  then show ?case using step ih
    by (simp add: setTimeout_def invoked_def del: upt_Suc)
qed

lemma geometric_sum: "sum_list (map (\<lambda>j. (d::int) * 2 ^ j) [0..<k]) = d * (2 ^ k - 1)"
  by (induction k) (simp_all add: algebra_simps)

lemma fetch_skips_failures:
  assumes "\<forall>j<k. case fetch (calls t + j) of Inl e \<Rightarrow> True | Inr r \<Rightarrow> \<not> ok r" and "int k \<le> retries"
  shows "fetchWithBackoff fetch retries delay t =
         fetchWithBackoff fetch (retries - int k) (delay * 2 ^ k)
           \<lparr>calls = calls t + k, slept = slept t @ map (\<lambda>j. delay * 2 ^ j) [0..<k]\<rparr>"
  using assms
proof (induction k arbitrary: retries delay t)
  case 0
  then show ?case by (cases t) simp
next
  case (Suc k)
  let ?t = "setTimeout delay (invoked t)"
  have pos: "retries > 0" using Suc.prems(2) by simp
  have "case fetch (calls t) of Inl e \<Rightarrow> True | Inr r \<Rightarrow> \<not> ok r"
    using Suc.prems(1) by force
  then have step: "fetchWithBackoff fetch retries delay t =
              fetchWithBackoff fetch (retries - 1) (delay * 2) ?t"
    using pos by (subst fetchWithBackoff.simps) (simp split: sum.splits)
  have "\<forall>j<k. case fetch (calls ?t + j) of Inl e \<Rightarrow> True | Inr r \<Rightarrow> \<not> ok r"
    using Suc.prems(1) by (auto simp: setTimeout_def invoked_def)
  moreover have "int k \<le> retries - 1" using Suc.prems(2) by simp
  ultimately have "fetchWithBackoff fetch (retries - 1) (delay * 2) ?t =
         fetchWithBackoff fetch (retries - 1 - int k) (delay * 2 * 2 ^ k)
           \<lparr>calls = calls ?t + k, slept = slept ?t @ map (\<lambda>j. delay * 2 * 2 ^ j) [0..<k]\<rparr>"
    by (rule Suc.IH)
  moreover have "map (\<lambda>j. delay * 2 ^ j) [0..<Suc k] = delay # map (\<lambda>j. delay * 2 * 2 ^ j) [0..<k]"
    by (simp only: upt_conv_Cons[of 0 "Suc k"] map_Suc_upt[symmetric]) (simp add: algebra_simps)
  ultimately show ?case using step
    by (simp add: setTimeout_def invoked_def algebra_simps del: upt_Suc)
qed

lemma loop_success:
  "int i < maxRetries \<Longrightarrow> func (calls t) = Inr v \<Longrightarrow>
   exponentialBackoff_loop func maxRetries delay i t = (Inr v, invoked t)"
  by (subst exponentialBackoff_loop.simps) simp

lemma loop_last:
  "int i < maxRetries \<Longrightarrow> \<not> int i < maxRetries - 1 \<Longrightarrow> func (calls t) = Inl e \<Longrightarrow>
   exponentialBackoff_loop func maxRetries delay i t = (Inl e, invoked t)"
  by (subst exponentialBackoff_loop.simps) simp

lemma loop_over:
  "\<not> int i < maxRetries \<Longrightarrow> exponentialBackoff_loop func maxRetries delay i t = (Inr None, t)"
  by (subst exponentialBackoff_loop.simps) simp

lemma fetch_ok:
  "fetch (calls t) = Inr r \<Longrightarrow> ok r \<Longrightarrow> fetchWithBackoff fetch retries delay t = (Inr r, invoked t)"
  by (subst fetchWithBackoff.simps) simp

lemma fetch_last:
  "\<not> retries > 0 \<Longrightarrow> failed (fetch (calls t)) \<Longrightarrow>
   fetchWithBackoff fetch retries delay t = (Inl (attempt_error (fetch (calls t))), invoked t)"
  by (subst fetchWithBackoff.simps) (auto simp add: failed_def attempt_error_def split: sum.splits)

lemma exponentialBackoff_success:
  fixes func :: "nat \<Rightarrow> 'e + 'a option"
  assumes "\<forall>j<k. \<exists>e. func j = Inl e" and "func k = Inr v" and "int k < maxRetries"
  shows "exponentialBackoff func maxRetries delay =
         (Inr v, \<lparr>calls = Suc k, slept = map (\<lambda>j. delay * 2 ^ j) [0..<k]\<rparr>)"
proof -
  have "exponentialBackoff func maxRetries delay =
        exponentialBackoff_loop func maxRetries delay (0 + k)
          \<lparr>calls = calls start + k, slept = slept start @ map (\<lambda>j. delay * 2 ^ j) [0..<0 + k]\<rparr>"
    unfolding exponentialBackoff_def
    by (rule loop_skips_failures) (use assms in \<open>simp_all add: start_def\<close>)
  also have "\<dots> = (Inr v, \<lparr>calls = Suc k, slept = map (\<lambda>j. delay * 2 ^ j) [0..<k]\<rparr>)"
    using assms(2,3) by (simp add: loop_success start_def invoked_def)
  finally show ?thesis .
qed

lemma exponentialBackoff_exhausted:
  fixes func :: "nat \<Rightarrow> 'e + 'a option"
  assumes "0 < maxRetries" and "\<forall>j<nat maxRetries. func j = Inl (err j)"
  shows "exponentialBackoff func maxRetries delay =
         (Inl (err (nat maxRetries - 1)),
          \<lparr>calls = nat maxRetries, slept = map (\<lambda>j. delay * 2 ^ j) [0..<nat maxRetries - 1]\<rparr>)"
proof -
  define k where "k = nat maxRetries - 1"
  have k1: "int k < maxRetries" and k2: "\<not> int k < maxRetries - 1" and k3: "nat maxRetries = Suc k"
    using assms(1) by (simp_all add: k_def)
  have fk: "func k = Inl (err k)" using assms(2) k3 by simp
  have below: "\<forall>j<k. \<exists>e. func (calls start + j) = Inl e"
    using assms(2) k3 by (simp add: start_def)
  have "exponentialBackoff func maxRetries delay =
        exponentialBackoff_loop func maxRetries delay (0 + k)
          \<lparr>calls = calls start + k, slept = slept start @ map (\<lambda>j. delay * 2 ^ j) [0..<0 + k]\<rparr>"
    unfolding exponentialBackoff_def
    by (rule loop_skips_failures) (use below k1 in simp_all)
  also have "\<dots> = (Inl (err k), \<lparr>calls = Suc k, slept = map (\<lambda>j. delay * 2 ^ j) [0..<k]\<rparr>)"
    using loop_last[of k maxRetries func "\<lparr>calls = k, slept = map (\<lambda>j. delay * 2 ^ j) [0..<k]\<rparr>" "err k" delay]
      k1 k2 fk by (simp add: start_def invoked_def)
  finally show ?thesis unfolding k3 by (simp add: k_def)
qed

lemma fetchWithBackoff_success:
  assumes "\<forall>j<k. failed (fetch j)" and "fetch k = Inr r" and "ok r" and "int k \<le> retries"
  shows "fetchWithBackoff fetch retries delay start =
         (Inr r, \<lparr>calls = Suc k, slept = map (\<lambda>j. delay * 2 ^ j) [0..<k]\<rparr>)"
proof -
  have "fetchWithBackoff fetch retries delay start =
        fetchWithBackoff fetch (retries - int k) (delay * 2 ^ k)
          \<lparr>calls = calls start + k, slept = slept start @ map (\<lambda>j. delay * 2 ^ j) [0..<k]\<rparr>"
    by (rule fetch_skips_failures) (use assms in \<open>simp_all add: start_def failed_def\<close>)
  also have "\<dots> = (Inr r, \<lparr>calls = Suc k, slept = map (\<lambda>j. delay * 2 ^ j) [0..<k]\<rparr>)"
    using assms(2,3) by (simp add: fetch_ok start_def invoked_def)
  finally show ?thesis .
qed

lemma fetchWithBackoff_exhausted:
  assumes "\<forall>j\<le>nat retries. failed (fetch j)"
  shows "fetchWithBackoff fetch retries delay start =
         (Inl (attempt_error (fetch (nat retries))),
          \<lparr>calls = Suc (nat retries), slept = map (\<lambda>j. delay * 2 ^ j) [0..<nat retries]\<rparr>)"
proof -
  define k where "k = nat retries"
  have last: "\<not> retries - int k > 0" by (simp add: k_def)
  have fk: "failed (fetch k)" using assms by (simp add: k_def)
  have "fetchWithBackoff fetch retries delay start =
        fetchWithBackoff fetch (retries - int k) (delay * 2 ^ k)
          \<lparr>calls = calls start + k, slept = slept start @ map (\<lambda>j. delay * 2 ^ j) [0..<k]\<rparr>"
  proof (cases "k = 0")
    case True
    then show ?thesis by (simp add: start_def)
  next
    case False
    then have "int k \<le> retries" by (simp add: k_def)
    moreover have "\<forall>j<k. case fetch (calls start + j) of Inl e \<Rightarrow> True | Inr r \<Rightarrow> \<not> ok r"
      using assms by (simp add: start_def failed_def k_def)
    ultimately show ?thesis by (rule fetch_skips_failures[rotated])
  qed
  also have "\<dots> = (Inl (attempt_error (fetch k)), \<lparr>calls = Suc k, slept = map (\<lambda>j. delay * 2 ^ j) [0..<k]\<rparr>)"
    using fetch_last[OF last, of fetch "\<lparr>calls = k, slept = map (\<lambda>j. delay * 2 ^ j) [0..<k]\<rparr>" "delay * 2 ^ k"] fk
    by (simp add: start_def invoked_def)
  finally show ?thesis by (simp add: k_def)
qed

text \<open>
  Claim C1. When the operation fails on its first \<open>k\<close> attempts and succeeds on the next,
  and \<open>k\<close> is below the retry budget, either invoker returns that first success after
  \<open>k + 1\<close> invocations, having waited \<open>delay * 2 ^ j\<close> after failure \<open>j\<close>: in total
  \<open>delay * (2 ^ k - 1)\<close>, the sum of the geometric series. \<^verbatim>\<open>fetchWithBackoff\<close> makes
  \<open>retries + 1\<close> attempts, so there \<open>k\<close> may equal \<open>retries\<close>.
\<close>
theorem backoff_returns_first_success:
  fixes func :: "nat \<Rightarrow> 'e + 'a option" and fetch :: "nat \<Rightarrow> error + response"
  shows
  "((\<forall>j<k. \<exists>e. func j = Inl e) \<and> func k = Inr v \<and> int k < maxRetries \<longrightarrow>
      fst (exponentialBackoff func maxRetries delay) = Inr v \<and>
      calls (snd (exponentialBackoff func maxRetries delay)) = Suc k \<and>
      slept (snd (exponentialBackoff func maxRetries delay)) = map (\<lambda>j. delay * 2 ^ j) [0..<k] \<and>
      sum_list (slept (snd (exponentialBackoff func maxRetries delay))) = delay * (2 ^ k - 1))
   \<and>
   ((\<forall>j<n. failed (fetch j)) \<and> fetch n = Inr r \<and> ok r \<and> int n \<le> retries \<longrightarrow>
      fst (fetchWithBackoff fetch retries d start) = Inr r \<and>
      calls (snd (fetchWithBackoff fetch retries d start)) = Suc n \<and>
      slept (snd (fetchWithBackoff fetch retries d start)) = map (\<lambda>j. d * 2 ^ j) [0..<n] \<and>
      sum_list (slept (snd (fetchWithBackoff fetch retries d start))) = d * (2 ^ n - 1))"
proof (intro conjI impI)
  assume a: "(\<forall>j<k. \<exists>e. func j = Inl e) \<and> func k = Inr v \<and> int k < maxRetries"
  then have run: "exponentialBackoff func maxRetries delay =
      (Inr v, \<lparr>calls = Suc k, slept = map (\<lambda>j. delay * 2 ^ j) [0..<k]\<rparr>)"
    by (intro exponentialBackoff_success) simp_all
  show "fst (exponentialBackoff func maxRetries delay) = Inr v"
    and "calls (snd (exponentialBackoff func maxRetries delay)) = Suc k"
    and "slept (snd (exponentialBackoff func maxRetries delay)) = map (\<lambda>j. delay * 2 ^ j) [0..<k]"
    and "sum_list (slept (snd (exponentialBackoff func maxRetries delay))) = delay * (2 ^ k - 1)"
    by (simp_all add: run geometric_sum del: upt_Suc)
next
  assume a: "(\<forall>j<n. failed (fetch j)) \<and> fetch n = Inr r \<and> ok r \<and> int n \<le> retries"
  then have run: "fetchWithBackoff fetch retries d start =
      (Inr r, \<lparr>calls = Suc n, slept = map (\<lambda>j. d * 2 ^ j) [0..<n]\<rparr>)"
    by (intro fetchWithBackoff_success) simp_all
  show "fst (fetchWithBackoff fetch retries d start) = Inr r"
    and "calls (snd (fetchWithBackoff fetch retries d start)) = Suc n"
    and "slept (snd (fetchWithBackoff fetch retries d start)) = map (\<lambda>j. d * 2 ^ j) [0..<n]"
    and "sum_list (slept (snd (fetchWithBackoff fetch retries d start))) = d * (2 ^ n - 1)"
    by (simp_all add: run geometric_sum del: upt_Suc)
qed

theorem backoff_returns_first_success_witness:
  "fst (exponentialBackoff (\<lambda>i. if i < 2 then Inl (NetworkError ''reset'') else Inr (Some (i * 7))) 5 1000) = Inr (Some 14)
   \<and> calls (snd (exponentialBackoff (\<lambda>i. if i < 2 then Inl (NetworkError ''reset'') else Inr (Some (i * 7))) 5 1000)) = 3
   \<and> slept (snd (exponentialBackoff (\<lambda>i. if i < 2 then Inl (NetworkError ''reset'') else Inr (Some (i * 7))) 5 1000)) = [1000, 2000]
   \<and> sum_list (slept (snd (exponentialBackoff (\<lambda>i. if i < 2 then Inl (NetworkError ''reset'') else Inr (Some (i * 7))) 5 1000))) = 3000
   \<and> fst (fetchWithBackoff
        (\<lambda>i. if i < 3 then Inl (NetworkError ''reset'')
              else Inr \<lparr>status = 200, statusText = ''OK'', text_body = ''{}'', json_body = JsonDoc None\<rparr>) 3 1000 start)
       = Inr \<lparr>status = 200, statusText = ''OK'', text_body = ''{}'', json_body = JsonDoc None\<rparr>
   \<and> slept (snd (fetchWithBackoff
        (\<lambda>i. if i < 3 then Inl (NetworkError ''reset'')
              else Inr \<lparr>status = 200, statusText = ''OK'', text_body = ''{}'', json_body = JsonDoc None\<rparr>) 3 1000 start))
       = [1000, 2000, 4000]"
  using backoff_returns_first_success
     [where k = 2 and func = "\<lambda>i. if i < 2 then Inl (NetworkError ''reset'') else Inr (Some (i * 7))"
        and v = "Some 14" and maxRetries = 5 and delay = 1000
        and n = 3 and retries = 3 and d = 1000
        and r = "\<lparr>status = 200, statusText = ''OK'', text_body = ''{}'', json_body = JsonDoc None\<rparr>"
        and fetch = "\<lambda>i. if i < 3 then Inl (NetworkError ''reset'')
              else Inr \<lparr>status = 200, statusText = ''OK'', text_body = ''{}'', json_body = JsonDoc None\<rparr>"]
  by (simp add: failed_def ok_def upt_conv_Cons)

text \<open>
  Claim C2. When every attempt the budget allows fails, the invoker's promise rejects, once,
  with the error of the last attempt: attempt \<open>maxRetries - 1\<close> of \<^verbatim>\<open>exponentialBackoff\<close>
  (a last attempt exists for a budget of at least one), attempt \<open>retries\<close> of
  \<^verbatim>\<open>fetchWithBackoff\<close>. No delay follows the last failure.
\<close>

theorem backoff_raises_last_error:
  fixes func :: "nat \<Rightarrow> 'e + 'a option" and fetch :: "nat \<Rightarrow> error + response"
  shows
  "(0 < maxRetries \<and> (\<forall>j<nat maxRetries. func j = Inl (err j)) \<longrightarrow>
      exponentialBackoff func maxRetries delay =
        (Inl (err (nat maxRetries - 1)),
         \<lparr>calls = nat maxRetries, slept = map (\<lambda>j. delay * 2 ^ j) [0..<nat maxRetries - 1]\<rparr>))
   \<and>
   ((\<forall>j\<le>nat retries. failed (fetch j)) \<longrightarrow>
      fetchWithBackoff fetch retries d start =
        (Inl (attempt_error (fetch (nat retries))),
         \<lparr>calls = Suc (nat retries), slept = map (\<lambda>j. d * 2 ^ j) [0..<nat retries]\<rparr>))"
proof (intro conjI impI)
  assume "0 < maxRetries \<and> (\<forall>j<nat maxRetries. func j = Inl (err j))"
  then show "exponentialBackoff func maxRetries delay =
        (Inl (err (nat maxRetries - 1)),
         \<lparr>calls = nat maxRetries, slept = map (\<lambda>j. delay * 2 ^ j) [0..<nat maxRetries - 1]\<rparr>)"
    by (intro exponentialBackoff_exhausted) simp_all
next
  assume "\<forall>j\<le>nat retries. failed (fetch j)"
  then show "fetchWithBackoff fetch retries d start =
        (Inl (attempt_error (fetch (nat retries))),
         \<lparr>calls = Suc (nat retries), slept = map (\<lambda>j. d * 2 ^ j) [0..<nat retries]\<rparr>)"
    by (rule fetchWithBackoff_exhausted)
qed

theorem backoff_raises_last_error_witness:
  "exponentialBackoff (\<lambda>j. Inl (HttpError (500 + j)) :: error + bool option) 5 1000 =
     (Inl (HttpError 504), \<lparr>calls = 5, slept = [1000, 2000, 4000, 8000]\<rparr>)
   \<and> fetchWithBackoff
       (\<lambda>j. if j < 3 then Inl (NetworkError ''reset'')
             else Inr \<lparr>status = 503, statusText = ''Service Unavailable'', text_body = '''', json_body = NotJson\<rparr>)
       3 1000 start =
     (Inl (HttpError 503), \<lparr>calls = 4, slept = [1000, 2000, 4000]\<rparr>)"
  using backoff_raises_last_error
     [where maxRetries = 5 and func = "\<lambda>j. Inl (HttpError (500 + j)) :: error + bool option"
        and err = "\<lambda>j. HttpError (500 + j)" and delay = 1000
        and retries = 3 and d = 1000
        and fetch = "\<lambda>j. if j < 3 then Inl (NetworkError ''reset'')
             else Inr \<lparr>status = 503, statusText = ''Service Unavailable'', text_body = '''', json_body = NotJson\<rparr>"]
  by (simp add: failed_def ok_def attempt_error_def upt_conv_Cons)

text \<open>
  Claim C10. With a retry budget of 0 the loop of \<^verbatim>\<open>exponentialBackoff\<close> is not entered:
  the operation is never invoked, nothing is waited for, no error is raised, and the
  promise fulfils with \<^verbatim>\<open>undefined\<close>, which is also what a single successful call of an
  operation that fulfils with \<^verbatim>\<open>undefined\<close> gives.
\<close>

theorem zero_budget_returns_undefined:
  fixes func :: "nat \<Rightarrow> 'e + 'a option"
  shows "exponentialBackoff func 0 delay = (Inr None, \<lparr>calls = 0, slept = []\<rparr>)
       \<and> fst (exponentialBackoff func 0 delay)
           = fst (exponentialBackoff (\<lambda>j. Inr None :: 'e + 'a option) 1 delay)"
  by (simp add: exponentialBackoff_def loop_over loop_success start_def)

lemma exponentialBackoff_cases:
  fixes func :: "nat \<Rightarrow> 'e + 'a option"
  assumes "0 < maxRetries"
  obtains
    (fulfilled) k v where "int k < maxRetries" and "\<forall>j<k. \<exists>e. func j = Inl e" and "func k = Inr v"
      and "exponentialBackoff func maxRetries delay =
           (Inr v, \<lparr>calls = Suc k, slept = map (\<lambda>j. delay * 2 ^ j) [0..<k]\<rparr>)"
  | (rejected) err where "\<forall>j<nat maxRetries. func j = Inl (err j)"
      and "exponentialBackoff func maxRetries delay =
           (Inl (err (nat maxRetries - 1)),
            \<lparr>calls = nat maxRetries, slept = map (\<lambda>j. delay * 2 ^ j) [0..<nat maxRetries - 1]\<rparr>)"
proof (cases "\<exists>k<nat maxRetries. \<exists>v. func k = Inr v")
  case True
  define k where "k = (LEAST k. \<exists>v. func k = Inr v)"
  from True obtain k0 where k0: "k0 < nat maxRetries" "\<exists>v. func k0 = Inr v" by blast
  have "\<exists>v. func k = Inr v" unfolding k_def using k0(2) by (rule LeastI)
  then obtain v where v: "func k = Inr v" ..
  have "k \<le> k0" unfolding k_def using k0(2) by (rule Least_le)
  with k0(1) have bound: "int k < maxRetries" by simp
  have before: "\<forall>j<k. \<exists>e. func j = Inl e"
  proof (intro allI impI)
    fix j assume "j < k"
    then have "\<not> (\<exists>v. func j = Inr v)" unfolding k_def by (rule not_less_Least)
    then show "\<exists>e. func j = Inl e" by (cases "func j") auto
  qed
  from before v bound have "exponentialBackoff func maxRetries delay =
      (Inr v, \<lparr>calls = Suc k, slept = map (\<lambda>j. delay * 2 ^ j) [0..<k]\<rparr>)"
    by (rule exponentialBackoff_success)
  with bound before v show ?thesis by (rule fulfilled)
next
  case False
  define err where "err j = (case func j of Inl e \<Rightarrow> e)" for j
  have all: "\<forall>j<nat maxRetries. func j = Inl (err j)"
  proof (intro allI impI)
    fix j assume "j < nat maxRetries"
    with False have "\<not> (\<exists>v. func j = Inr v)" by blast
    then show "func j = Inl (err j)" by (cases "func j") (auto simp: err_def)
  qed
  with assms have "exponentialBackoff func maxRetries delay =
           (Inl (err (nat maxRetries - 1)),
            \<lparr>calls = nat maxRetries, slept = map (\<lambda>j. delay * 2 ^ j) [0..<nat maxRetries - 1]\<rparr>)"
    by (rule exponentialBackoff_exhausted)
  with all show ?thesis by (rule rejected)
qed

lemma fetchWithBackoff_cases:
  obtains
    (fulfilled) k r where "k \<le> nat retries" and "\<forall>j<k. failed (fetch j)" and "fetch k = Inr r" and "ok r"
      and "fetchWithBackoff fetch retries delay start =
           (Inr r, \<lparr>calls = Suc k, slept = map (\<lambda>j. delay * 2 ^ j) [0..<k]\<rparr>)"
  | (rejected) "\<forall>j\<le>nat retries. failed (fetch j)"
      and "fetchWithBackoff fetch retries delay start =
           (Inl (attempt_error (fetch (nat retries))),
            \<lparr>calls = Suc (nat retries), slept = map (\<lambda>j. delay * 2 ^ j) [0..<nat retries]\<rparr>)"
proof (cases "\<exists>k\<le>nat retries. \<not> failed (fetch k)")
  case True
  define k where "k = (LEAST k. \<not> failed (fetch k))"
  from True obtain k0 where k0: "k0 \<le> nat retries" "\<not> failed (fetch k0)" by blast
  have nf: "\<not> failed (fetch k)" unfolding k_def using k0(2) by (rule LeastI)
  then obtain r where r: "fetch k = Inr r" "ok r"
    by (cases "fetch k") (auto simp: failed_def)
  have "k \<le> k0" unfolding k_def using k0(2) by (rule Least_le)
  with k0(1) have bound: "k \<le> nat retries" by simp
  have before: "\<forall>j<k. failed (fetch j)"
  proof (intro allI impI)
    fix j assume "j < k"
    then have "\<not> \<not> failed (fetch j)" unfolding k_def by (rule not_less_Least)
    then show "failed (fetch j)" by simp
  qed
  have "int k \<le> retries \<or> k = 0" using bound by auto
  then have "fetchWithBackoff fetch retries delay start =
      (Inr r, \<lparr>calls = Suc k, slept = map (\<lambda>j. delay * 2 ^ j) [0..<k]\<rparr>)"
  proof
    assume "int k \<le> retries"
    with before r show ?thesis by (intro fetchWithBackoff_success)
  next
    assume "k = 0"
    with r show ?thesis by (simp add: fetch_ok start_def invoked_def)
  qed
  with bound before r show ?thesis by (rule fulfilled)
next
  case False
  then have all: "\<forall>j\<le>nat retries. failed (fetch j)" by blast
  then have "fetchWithBackoff fetch retries delay start =
           (Inl (attempt_error (fetch (nat retries))),
            \<lparr>calls = Suc (nat retries), slept = map (\<lambda>j. delay * 2 ^ j) [0..<nat retries]\<rparr>)"
    by (rule fetchWithBackoff_exhausted)
  with all show ?thesis by (rule rejected)
qed

section \<open>Properties of the Request Handlers\<close>

text \<open>The equations that run a handler on given inputs.\<close>

lemmas run_simps =
  gr_handler_def p0_handler_def gr_save_def p0_save_def gr_failure_def p0_failure_def
  POST_def Let_def exponentialBackoff_def exponentialBackoff_loop.simps fetchWithBackoff.simps
  start_def invoked_def setTimeout_def script_def ok_def missingEnvironment_def unset_def

lemma gr_failure_simps:
  "res_status (gr_failure e g p d) = 500"
  "generation_log (gr_failure e g p d) = g"
  "persistence_log (gr_failure e g p d) = p"
  "delays (gr_failure e g p d) = d"
  by (simp_all add: gr_failure_def)

lemma p0_failure_simps:
  "res_status (p0_failure e g p d) = 500"
  "generation_log (p0_failure e g p d) = g"
  "persistence_log (p0_failure e g p d) = p"
  "delays (p0_failure e g p d) = d"
  by (simp_all add: p0_failure_def)

lemma gr_save_generation_log: "generation_log (gr_save env w b txt g d) = g"
  by (simp add: Let_def gr_save_def gr_failure_simps split: prod.splits sum.splits option.splits)

lemma p0_save_generation_log: "generation_log (p0_save env w b txt g d) = g"
  by (simp add: Let_def p0_save_def p0_failure_simps split: prod.splits sum.splits)

lemma gr_save_status: "res_status (gr_save env w b txt g d) = 200 \<or> res_status (gr_save env w b txt g d) = 500"
  by (simp add: Let_def gr_save_def gr_failure_simps split: prod.splits sum.splits option.splits)

lemma p0_save_status: "res_status (p0_save env w b txt g d) = 200 \<or> res_status (p0_save env w b txt g d) = 500"
  by (simp add: Let_def p0_save_def p0_failure_simps split: prod.splits sum.splits)

text \<open>Saving fails when every attempt within the budget fails.\<close>

lemma gr_save_fails:
  assumes "\<forall>j<5. failed (airtable w j)"
  shows "res_status (gr_save env w b txt g d) = 500"
proof -
  let ?f = "\<lambda>n. map_sum id Some (airtable w n) :: error + response option"
  have "(0::int) < 5" by simp
  then show ?thesis
  proof (cases rule: exponentialBackoff_cases[where func = ?f and delay = 1000])
    case (fulfilled k v)
    from fulfilled(3) obtain r where r: "airtable w k = Inr r" "v = Some r"
      by (cases "airtable w k") auto
    from fulfilled(1) have "k < 5" by simp
    with assms r(1) have "\<not> ok r" by (auto simp: failed_def)
    with fulfilled(4) r(2) show ?thesis
      by (simp add: Let_def gr_save_def gr_failure_simps)
  next
    case (rejected err)
    then show ?thesis by (simp add: Let_def gr_save_def gr_failure_simps)
  qed
qed

lemma p0_save_fails:
  assumes "\<forall>j<4. failed (airtable w j)"
  shows "res_status (p0_save env w b txt g d) = 500"
proof -
  have "\<forall>j\<le>nat 3. failed (airtable w j)" using assms by simp
  then have "fetchWithBackoff (airtable w) 3 1000 start =
           (Inl (attempt_error (airtable w (nat 3))),
            \<lparr>calls = Suc (nat 3), slept = map (\<lambda>j. 1000 * 2 ^ j) [0..<nat 3]\<rparr>)"
    by (rule fetchWithBackoff_exhausted)
  then show ?thesis
    by (simp add: Let_def p0_save_def p0_failure_simps split: sum.splits)
qed

lemma gr_handler_shape:
  "res_status (gr_handler env w req) = 405 \<or> res_status (gr_handler env w req) = 500
   \<or> (\<exists>b txt g d. req_method req = ''POST'' \<and> gr_handler env w req = gr_save env w b txt g d)"
  by (auto simp add: Let_def gr_handler_def gr_failure_simps
      split: prod.splits sum.splits option.splits json_reply.splits)

lemma p0_handler_shape:
  "res_status (p0_handler env w req) = 405 \<or> res_status (p0_handler env w req) = 500
   \<or> (\<exists>b txt g d. req_method req = ''POST'' \<and> p0_handler env w req = p0_save env w b txt g d)"
  by (auto simp add: Let_def p0_handler_def p0_failure_simps
      split: prod.splits sum.splits option.splits json_reply.splits)

lemma gr_handler_status:
  "res_status (gr_handler env w req) \<in> {200, 405, 500}"
proof -
  consider (rejected) "res_status (gr_handler env w req) = 405"
    | (failed) "res_status (gr_handler env w req) = 500"
    | (saving) b rep g ds where "gr_handler env w req = gr_save env w b rep g ds"
    using gr_handler_shape[of env w req] by blast
  then show ?thesis
  proof cases
    case saving
    then show ?thesis using gr_save_status[of env w b rep g ds] by auto
  qed simp_all
qed

lemma p0_handler_status:
  "res_status (p0_handler env w req) \<in> {200, 405, 500}"
proof -
  consider (rejected) "res_status (p0_handler env w req) = 405"
    | (failed) "res_status (p0_handler env w req) = 500"
    | (saving) b rep g ds where "p0_handler env w req = p0_save env w b rep g ds"
    using p0_handler_shape[of env w req] by blast
  then show ?thesis
  proof cases
    case saving
    then show ?thesis using p0_save_status[of env w b rep g ds] by auto
  qed simp_all
qed

lemma gr_handler_status_POST:
  "req_method req = ''POST'' \<Longrightarrow> res_status (gr_handler env w req) \<noteq> 405"
  by (auto simp add: Let_def gr_handler_def gr_failure_simps gr_save_def
      split: prod.splits sum.splits option.splits json_reply.splits)

lemma p0_handler_status_POST:
  "req_method req = ''POST'' \<Longrightarrow> res_status (p0_handler env w req) \<noteq> 405"
  by (auto simp add: Let_def p0_handler_def p0_failure_simps p0_save_def
      split: prod.splits sum.splits option.splits json_reply.splits)

lemma gr_failure_json: "map_of (res_json (gr_failure e g p d)) ''reportText'' = None"
  by (simp add: gr_failure_def)

lemma p0_failure_json: "map_of (res_json (p0_failure e g p d)) ''reportText'' = None"
  by (simp add: p0_failure_def)

lemma gr_save_fails_json:
  assumes "\<forall>j<5. failed (airtable w j)"
  shows "map_of (res_json (gr_save env w b rep g d)) ''reportText'' = None"
proof -
  let ?f = "\<lambda>n. map_sum id Some (airtable w n) :: error + response option"
  have "(0::int) < 5" by simp
  then show ?thesis
  proof (cases rule: exponentialBackoff_cases[where func = ?f and delay = 1000])
    case (fulfilled k v)
    from fulfilled(3) obtain r where r: "airtable w k = Inr r" "v = Some r"
      by (cases "airtable w k") auto
    from fulfilled(1) have "k < 5" by simp
    with assms r(1) have "\<not> ok r" by (auto simp: failed_def)
    with fulfilled(4) r(2) show ?thesis
      by (simp add: gr_save_def Let_def gr_failure_json)
  next
    case (rejected err)
    then show ?thesis by (simp add: gr_save_def Let_def gr_failure_json)
  qed
qed

lemma p0_save_fails_json:
  assumes "\<forall>j<4. failed (airtable w j)"
  shows "map_of (res_json (p0_save env w b rep g d)) ''reportText'' = None"
proof -
  have "\<forall>j\<le>nat 3. failed (airtable w j)" using assms by simp
  then have "fetchWithBackoff (airtable w) 3 1000 start =
           (Inl (attempt_error (airtable w (nat 3))),
            \<lparr>calls = Suc (nat 3), slept = map (\<lambda>j. 1000 * 2 ^ j) [0..<nat 3]\<rparr>)"
    by (rule fetchWithBackoff_exhausted)
  then show ?thesis
    by (simp add: p0_save_def Let_def p0_failure_json split: sum.splits)
qed

lemma gr_handler_shape2:
  "(res_status (gr_handler env w req) \<in> {405, 500}
      \<and> map_of (res_json (gr_handler env w req)) ''reportText'' = None)
   \<or> (\<exists>b rep g d. gr_handler env w req = gr_save env w b rep g d)"
  by (auto simp add: Let_def gr_handler_def gr_failure_def
      split: prod.splits sum.splits option.splits json_reply.splits)

lemma p0_handler_shape2:
  "(res_status (p0_handler env w req) \<in> {405, 500}
      \<and> map_of (res_json (p0_handler env w req)) ''reportText'' = None)
   \<or> (\<exists>b rep g d. p0_handler env w req = p0_save env w b rep g d)"
  by (auto simp add: Let_def p0_handler_def p0_failure_def
      split: prod.splits sum.splits option.splits json_reply.splits)

lemma gr_handler_surfaces:
  assumes "\<forall>j<5. failed (airtable w j)"
  shows "res_status (gr_handler env w req) \<noteq> 200"
    and "req_method req = ''POST'' \<Longrightarrow> res_status (gr_handler env w req) = 500"
    and "map_of (res_json (gr_handler env w req)) ''reportText'' = None"
proof -
  consider (early) "res_status (gr_handler env w req) \<in> {405, 500}"
      "map_of (res_json (gr_handler env w req)) ''reportText'' = None"
    | (saving) b rep g d where "gr_handler env w req = gr_save env w b rep g d"
    using gr_handler_shape2[of env w req] by auto
  then have "res_status (gr_handler env w req) \<in> {405, 500}
      \<and> map_of (res_json (gr_handler env w req)) ''reportText'' = None"
  proof cases
    case early
    then show ?thesis by simp
  next
    case saving
    then show ?thesis
      using gr_save_fails[OF assms, of env b rep g d] gr_save_fails_json[OF assms, of env b rep g d]
      by simp
  qed
  then show "res_status (gr_handler env w req) \<noteq> 200"
    and "map_of (res_json (gr_handler env w req)) ''reportText'' = None"
    and "req_method req = ''POST'' \<Longrightarrow> res_status (gr_handler env w req) = 500"
    using gr_handler_status_POST[of req env w] by auto
qed

lemma p0_handler_surfaces:
  assumes "\<forall>j<4. failed (airtable w j)"
  shows "res_status (p0_handler env w req) \<noteq> 200"
    and "req_method req = ''POST'' \<Longrightarrow> res_status (p0_handler env w req) = 500"
    and "map_of (res_json (p0_handler env w req)) ''reportText'' = None"
proof -
  consider (early) "res_status (p0_handler env w req) \<in> {405, 500}"
      "map_of (res_json (p0_handler env w req)) ''reportText'' = None"
    | (saving) b rep g d where "p0_handler env w req = p0_save env w b rep g d"
    using p0_handler_shape2[of env w req] by auto
  then have "res_status (p0_handler env w req) \<in> {405, 500}
      \<and> map_of (res_json (p0_handler env w req)) ''reportText'' = None"
  proof cases
    case early
    then show ?thesis by simp
  next
    case saving
    then show ?thesis
      using p0_save_fails[OF assms, of env b rep g d] p0_save_fails_json[OF assms, of env b rep g d]
      by simp
  qed
  then show "res_status (p0_handler env w req) \<noteq> 200"
    and "map_of (res_json (p0_handler env w req)) ''reportText'' = None"
    and "req_method req = ''POST'' \<Longrightarrow> res_status (p0_handler env w req) = 500"
    using p0_handler_status_POST[of req env w] by auto
qed

lemma gr_save_acknowledged:
  assumes "res_status (gr_save env w b rep g d) = 200"
  shows "\<exists>k<5. (\<forall>j<k. \<exists>e. airtable w j = Inl e) \<and> (\<exists>r. airtable w k = Inr r \<and> ok r)"
proof -
  let ?f = "\<lambda>n. map_sum id Some (airtable w n) :: error + response option"
  have "(0::int) < 5" by simp
  then show ?thesis
  proof (cases rule: exponentialBackoff_cases[where func = ?f and delay = 1000])
    case (fulfilled k v)
    from fulfilled(3) obtain r where r: "airtable w k = Inr r" "v = Some r"
      by (cases "airtable w k") auto
    have "ok r"
      using assms fulfilled(4) r(2) by (simp add: gr_save_def Let_def gr_failure_simps split: if_splits)
    moreover have "\<forall>j<k. \<exists>e. airtable w j = Inl e"
    proof (intro allI impI)
      fix j assume "j < k"
      with fulfilled(2) obtain e where "?f j = Inl e" by blast
      then show "\<exists>e. airtable w j = Inl e" by (cases "airtable w j") auto
    qed
    moreover have "k < 5" using fulfilled(1) by simp
    ultimately show ?thesis using r(1) by blast
  next
    case (rejected err)
    then show ?thesis using assms by (simp add: gr_save_def Let_def gr_failure_simps)
  qed
qed

lemma p0_save_acknowledged:
  assumes "res_status (p0_save env w b rep g d) = 200"
  shows "\<exists>k<4. (\<forall>j<k. failed (airtable w j)) \<and> (\<exists>r. airtable w k = Inr r \<and> ok r)"
proof (cases rule: fetchWithBackoff_cases[where fetch = "airtable w" and retries = 3 and delay = 1000])
  case (fulfilled k r)
  then have "k < 4" by simp
  with fulfilled show ?thesis by blast
next
  case rejected
  then show ?thesis using assms
    by (simp add: p0_save_def Let_def p0_failure_simps split: sum.splits)
qed

lemma gr_handler_acknowledged:
  assumes "res_status (gr_handler env w req) = 200"
  shows "\<exists>k<5. (\<forall>j<k. \<exists>e. airtable w j = Inl e) \<and> (\<exists>r. airtable w k = Inr r \<and> ok r)"
proof -
  from assms gr_handler_shape2[of env w req]
  obtain b rep g d where "gr_handler env w req = gr_save env w b rep g d" by auto
  with assms show ?thesis using gr_save_acknowledged[of env w b rep g d] by simp
qed

lemma p0_handler_acknowledged:
  assumes "res_status (p0_handler env w req) = 200"
  shows "\<exists>k<4. (\<forall>j<k. failed (airtable w j)) \<and> (\<exists>r. airtable w k = Inr r \<and> ok r)"
proof -
  from assms p0_handler_shape2[of env w req]
  obtain b rep g d where "p0_handler env w req = p0_save env w b rep g d" by auto
  with assms show ?thesis using p0_save_acknowledged[of env w b rep g d] by simp
qed

text \<open>
  Claim C4. When every attempt to write the record fails, to the end of the retry budget
  (five attempts of \<^verbatim>\<open>exponentialBackoff\<close>, four of \<^verbatim>\<open>fetchWithBackoff\<close>; an attempt fails
  when the fetch rejects or the answer is not ok), neither handler answers with status
  200 or with a \<^verbatim>\<open>reportText\<close>: a POST is answered with status 500, also when the report
  was generated. Put the other way round, a handler answers 200 only when the attempt at
  which its invoker stopped was answered ok by the persistence service: in
  \<^verbatim>\<open>api/generate-report.js\<close> after rejected fetches only, in \<^verbatim>\<open>part_000\<close> after failed
  attempts of either kind.
\<close>

theorem persistence_failure_is_surfaced:
  "((\<forall>j<5. failed (airtable w j)) \<longrightarrow>
      res_status (gr_handler env w req) \<noteq> 200 \<and>
      map_of (res_json (gr_handler env w req)) ''reportText'' = None \<and>
      (req_method req = ''POST'' \<longrightarrow> res_status (gr_handler env w req) = 500))
   \<and>
   ((\<forall>j<4. failed (airtable w j)) \<longrightarrow>
      res_status (p0_handler env w req) \<noteq> 200 \<and>
      map_of (res_json (p0_handler env w req)) ''reportText'' = None \<and>
      (req_method req = ''POST'' \<longrightarrow> res_status (p0_handler env w req) = 500))
   \<and>
   (res_status (gr_handler env w req) = 200 \<longrightarrow>
      (\<exists>k<5. (\<forall>j<k. \<exists>e. airtable w j = Inl e) \<and> (\<exists>r. airtable w k = Inr r \<and> ok r)))
   \<and>
   (res_status (p0_handler env w req) = 200 \<longrightarrow>
      (\<exists>k<4. (\<forall>j<k. failed (airtable w j)) \<and> (\<exists>r. airtable w k = Inr r \<and> ok r)))"
  using gr_handler_surfaces[where w = w and env = env and req = req]
    p0_handler_surfaces[where w = w and env = env and req = req]
    gr_handler_acknowledged[of env w req] p0_handler_acknowledged[of env w req] by blast

theorem persistence_failure_is_surfaced_witness:
  "failed (script [] (answer 503 NotJson) 4)
   \<and> res_status (gr_handler settings
        \<lparr>gemini = script [] (answer 200 (JsonDoc (Some ''Report.''))),
         airtable = script [] (answer 503 NotJson), clock = ''2025-01-02T03:04:05.000Z''\<rparr>
        (POST scenario)) = 500
   \<and> res_status (p0_handler settings
        \<lparr>gemini = script [] (answer 200 (JsonDoc (Some ''Report.''))),
         airtable = script [] (answer 503 NotJson), clock = ''2025-01-02T03:04:05.000Z''\<rparr>
        (POST scenario)) = 500
   \<and> length (generation_log (gr_handler settings
        \<lparr>gemini = script [] (answer 200 (JsonDoc (Some ''Report.''))),
         airtable = script [] (answer 503 NotJson), clock = ''2025-01-02T03:04:05.000Z''\<rparr>
        (POST scenario))) = 1
   \<and> length (persistence_log (p0_handler settings
        \<lparr>gemini = script [] (answer 200 (JsonDoc (Some ''Report.''))),
         airtable = script [] (answer 503 NotJson), clock = ''2025-01-02T03:04:05.000Z''\<rparr>
        (POST scenario))) = 4"
proof -
  let ?w = "\<lparr>gemini = script [] (answer 200 (JsonDoc (Some ''Report.''))),
         airtable = script [] (answer 503 NotJson), clock = ''2025-01-02T03:04:05.000Z''\<rparr>"
  have f: "\<forall>j. failed (airtable ?w j)" by (simp add: failed_def ok_def script_def)
  have g: "length (generation_log (gr_handler settings ?w (POST scenario))) = 1"
    by (simp add: run_simps)
  have p: "length (persistence_log (p0_handler settings ?w (POST scenario))) = 4"
    by (simp add: run_simps intervalValueForAirtable_def)
  from persistence_failure_is_surfaced[where w = ?w and env = settings and req = "POST scenario"] f g p
  show ?thesis by (simp add: POST_def)
qed

lemma exponentialBackoff_calls:
  fixes func :: "nat \<Rightarrow> 'e + 'a option"
  assumes "0 < maxRetries"
  shows "0 < calls (snd (exponentialBackoff func maxRetries delay))"
  using assms
proof (cases rule: exponentialBackoff_cases[where func = func and delay = delay])
  case (fulfilled k v)
  then show ?thesis by simp
next
  case (rejected err)
  then show ?thesis using assms by simp
qed

lemma gr_generation_log:
  "generation_log (gr_handler env w (POST b)) =
     replicate (calls (snd (exponentialBackoff (\<lambda>n. map_sum id Some (gemini w n)) 5 1000)))
       \<lparr>gen_url = GOOGLE_AI_API_URL @ ''?key='' @ shown (env ''GOOGLE_API_KEY''),
        gen_prompt = prompt b, gen_system = systemInstruction, gen_search = True\<rparr>"
  by (simp add: gr_handler_def POST_def Let_def gr_failure_simps gr_save_generation_log
      split: prod.splits sum.splits option.splits json_reply.splits)

lemma p0_missing_environment:
  "missingEnvironment env \<Longrightarrow>
   p0_handler env w (POST b) =
     \<lparr>res_status = 500,
      res_json = [(''error'', Text ''Missing environment variables. Please check your Vercel settings.'')],
      generation_log = [], persistence_log = [], delays = []\<rparr>"
  by (simp add: p0_handler_def POST_def)

lemma p0_missing_environment_any:
  "missingEnvironment env \<Longrightarrow>
   generation_log (p0_handler env w req) = [] \<and> persistence_log (p0_handler env w req) = []
   \<and> delays (p0_handler env w req) = [] \<and> res_status (p0_handler env w req) \<in> {405, 500}"
  by (simp add: p0_handler_def p0_failure_def split: option.splits)

text \<open>
  Claim C5, amended. In the handler of \<^verbatim>\<open>part_000\<close>, when one of the four credentials is
  not set (or is empty), a POST with a body is answered with status 500 and the fixed
  message about missing environment variables, and no request of whatever kind leads to
  an outbound call or a delay; a request that is not a POST is answered 405, and a POST
  without a body 500, before the configuration is looked at. The handler of
  \<^verbatim>\<open>api/generate-report.js\<close> has no such check: whatever the configuration, a POST with a
  body reaches the generation service.
\<close>

theorem missing_configuration_stops_part_000:
  "(missingEnvironment env \<longrightarrow>
      p0_handler env w (POST b) =
        \<lparr>res_status = 500,
         res_json = [(''error'', Text ''Missing environment variables. Please check your Vercel settings.'')],
         generation_log = [], persistence_log = [], delays = []\<rparr>
      \<and> generation_log (p0_handler env w req) = []
      \<and> persistence_log (p0_handler env w req) = []
      \<and> delays (p0_handler env w req) = []
      \<and> res_status (p0_handler env w req) \<in> {405, 500})
   \<and> (req_method req \<noteq> ''POST'' \<longrightarrow> res_status (p0_handler env w req) = 405)
   \<and> generation_log (gr_handler env w (POST b)) \<noteq> []"
proof -
  have other: "req_method req \<noteq> ''POST'' \<longrightarrow> res_status (p0_handler env w req) = 405"
    by (simp add: p0_handler_def)
  have "0 < calls (snd (exponentialBackoff (\<lambda>n. map_sum id Some (gemini w n) :: error + response option) 5 1000))"
    by (rule exponentialBackoff_calls) simp
  then have "generation_log (gr_handler env w (POST b)) \<noteq> []"
    by (simp add: gr_generation_log)
  then show ?thesis
    using other p0_missing_environment[of env w b] p0_missing_environment_any[of env w req]
    by blast
qed

theorem missing_configuration_stops_part_000_witness:
  "missingEnvironment (settings(''GEMINI_API_KEY'' := None))
   \<and> p0_handler (settings(''GEMINI_API_KEY'' := None))
        \<lparr>gemini = script [] (answer 200 (JsonDoc (Some ''Report.''))),
         airtable = script [] (answer 200 JsonNull), clock = ''2025-01-02T03:04:05.000Z''\<rparr>
        (POST scenario) =
        \<lparr>res_status = 500,
         res_json = [(''error'', Text ''Missing environment variables. Please check your Vercel settings.'')],
         generation_log = [], persistence_log = [], delays = []\<rparr>
   \<and> res_status (p0_handler (settings(''GEMINI_API_KEY'' := None))
        \<lparr>gemini = script [] (answer 200 (JsonDoc (Some ''Report.''))),
         airtable = script [] (answer 200 JsonNull), clock = ''2025-01-02T03:04:05.000Z''\<rparr>
        \<lparr>req_method = ''GET'', req_body = Some scenario\<rparr>) = 405"
  using missing_configuration_stops_part_000
    [where env = "settings(''GEMINI_API_KEY'' := None)"
       and w = "\<lparr>gemini = script [] (answer 200 (JsonDoc (Some ''Report.''))),
         airtable = script [] (answer 200 JsonNull), clock = ''2025-01-02T03:04:05.000Z''\<rparr>"
       and b = scenario and req = "\<lparr>req_method = ''GET'', req_body = Some scenario\<rparr>"]
  by (simp add: missingEnvironment_def unset_def)

text \<open>
  The claim fails twice: with no credential at all, the handler of \<^verbatim>\<open>part_000\<close> answers a
  GET with 405, and the handler of \<^verbatim>\<open>api/generate-report.js\<close> calls the generation
  service.
\<close>

theorem missing_configuration_counterexample:
  "missingEnvironment Map.empty
   \<and> res_status (p0_handler Map.empty
        \<lparr>gemini = script [] (answer 200 (JsonDoc (Some ''Report.''))),
         airtable = script [] (answer 200 JsonNull), clock = ''2025-01-02T03:04:05.000Z''\<rparr>
        \<lparr>req_method = ''GET'', req_body = Some scenario\<rparr>) = 405
   \<and> length (generation_log (gr_handler Map.empty
        \<lparr>gemini = script [] (answer 403 (JsonDoc None)),
         airtable = script [] (answer 401 JsonNull), clock = ''2025-01-02T03:04:05.000Z''\<rparr>
        (POST scenario))) = 1"
  by (simp add: run_simps)

lemma p0_save_ok:
  assumes "interval b = Str s" and "airtable w 0 = Inr r2" and "ok r2"
  shows "res_status (p0_save env w b rep g d) = 200"
    and "generation_log (p0_save env w b rep g d) = g"
    and "length (persistence_log (p0_save env w b rep g d)) = 1"
    and "delays (p0_save env w b rep g d) = d"
proof -
  have run: "fetchWithBackoff (airtable w) 3 1000 start = (Inr r2, \<lparr>calls = 1, slept = []\<rparr>)"
    using assms(2,3) by (simp add: fetch_ok start_def invoked_def)
  show "res_status (p0_save env w b rep g d) = 200"
    and "generation_log (p0_save env w b rep g d) = g"
    and "length (persistence_log (p0_save env w b rep g d)) = 1"
    and "delays (p0_save env w b rep g d) = d"
    using assms(1) by (simp_all add: p0_save_def intervalValueForAirtable_def Let_def run)
qed

lemma p0_handler_rate_limited_twice:
  assumes env: "\<not> missingEnvironment env"
    and limited: "\<forall>j<2. \<exists>r'. gemini w j = Inr r' \<and> status r' = 429"
    and third: "gemini w 2 = Inr r" "ok r" "json_body r \<noteq> NotJson"
    and rest: "interval b = Str s" "airtable w 0 = Inr r2" "ok r2"
  shows "res_status (p0_handler env w (POST b)) = 200"
    and "length (generation_log (p0_handler env w (POST b))) = 3"
    and "length (persistence_log (p0_handler env w (POST b))) = 1"
    and "delays (p0_handler env w (POST b)) = [1000, 2000]"
proof -
  have "\<forall>j<2. failed (gemini w j)"
    using limited by (auto simp: failed_def ok_def)
  then have run: "fetchWithBackoff (gemini w) 3 1000 start =
      (Inr r, \<lparr>calls = Suc 2, slept = map (\<lambda>j. 1000 * 2 ^ j) [0..<2]\<rparr>)"
    using third(1,2) by (intro fetchWithBackoff_success) simp_all
  have sl: "map (\<lambda>j. (1000::int) * 2 ^ j) [0..<2] = [1000, 2000]"
    by (simp add: upt_conv_Cons)
  note save = p0_save_ok[OF rest, of env]
  show "res_status (p0_handler env w (POST b)) = 200"
    and "length (generation_log (p0_handler env w (POST b))) = 3"
    and "length (persistence_log (p0_handler env w (POST b))) = 1"
    and "delays (p0_handler env w (POST b)) = [1000, 2000]"
    using env third(3)
    by (simp_all add: p0_handler_def POST_def Let_def run sl save del: upt_Suc
          split: json_reply.splits)
qed

text \<open>
  Claim C3, amended. \<^verbatim>\<open>fetchWithBackoff\<close> retries an answer with status 429 exactly as it
  retries a rejected fetch: after \<open>k\<close> attempts that each ended in one or the other, an
  ok answer within the budget is returned after \<open>k + 1\<close> calls and the delays
  \<open>delay * 2 ^ j\<close>. So when the generation service answers 429 twice and then 200, the
  handler of \<^verbatim>\<open>part_000\<close> calls it exactly three times, waits 1000 and 2000 ms, saves the
  record and answers 200. \<^verbatim>\<open>exponentialBackoff\<close> retries rejections only: an operation
  whose first call fulfils, with a response of whatever status, is called once and that
  response is the result.
\<close>

theorem rate_limit_is_retried_by_fetchWithBackoff:
  fixes func :: "nat \<Rightarrow> 'e + 'a option"
  shows
  "((\<forall>j<k. (\<exists>e. fetch j = Inl e) \<or> (\<exists>r'. fetch j = Inr r' \<and> status r' = 429))
      \<and> fetch k = Inr r \<and> ok r \<and> int k \<le> retries \<longrightarrow>
      fetchWithBackoff fetch retries delay start =
        (Inr r, \<lparr>calls = Suc k, slept = map (\<lambda>j. delay * 2 ^ j) [0..<k]\<rparr>))
   \<and>
   (\<not> missingEnvironment env \<and> (\<forall>j<2. \<exists>r'. gemini w j = Inr r' \<and> status r' = 429)
      \<and> gemini w 2 = Inr r3 \<and> ok r3 \<and> json_body r3 \<noteq> NotJson
      \<and> interval b = Str s \<and> airtable w 0 = Inr r2 \<and> ok r2 \<longrightarrow>
      res_status (p0_handler env w (POST b)) = 200
      \<and> length (generation_log (p0_handler env w (POST b))) = 3
      \<and> length (persistence_log (p0_handler env w (POST b))) = 1
      \<and> delays (p0_handler env w (POST b)) = [1000, 2000])
   \<and>
   (0 < maxRetries \<and> func 0 = Inr v \<longrightarrow>
      exponentialBackoff func maxRetries d = (Inr v, \<lparr>calls = 1, slept = []\<rparr>))"
proof (intro conjI impI)
  assume a: "(\<forall>j<k. (\<exists>e. fetch j = Inl e) \<or> (\<exists>r'. fetch j = Inr r' \<and> status r' = 429))
      \<and> fetch k = Inr r \<and> ok r \<and> int k \<le> retries"
  then have "\<forall>j<k. failed (fetch j)"
    by (auto simp: failed_def ok_def)
  with a show "fetchWithBackoff fetch retries delay start =
        (Inr r, \<lparr>calls = Suc k, slept = map (\<lambda>j. delay * 2 ^ j) [0..<k]\<rparr>)"
    by (intro fetchWithBackoff_success) simp_all
next
  assume a: "\<not> missingEnvironment env \<and> (\<forall>j<2. \<exists>r'. gemini w j = Inr r' \<and> status r' = 429)
      \<and> gemini w 2 = Inr r3 \<and> ok r3 \<and> json_body r3 \<noteq> NotJson
      \<and> interval b = Str s \<and> airtable w 0 = Inr r2 \<and> ok r2"
  then show "res_status (p0_handler env w (POST b)) = 200"
    and "length (generation_log (p0_handler env w (POST b))) = 3"
    and "length (persistence_log (p0_handler env w (POST b))) = 1"
    and "delays (p0_handler env w (POST b)) = [1000, 2000]"
    using p0_handler_rate_limited_twice[of env w r3 b s r2] by blast+
next
  assume "0 < maxRetries \<and> func 0 = Inr v"
  then show "exponentialBackoff func maxRetries d = (Inr v, \<lparr>calls = 1, slept = []\<rparr>)"
    using exponentialBackoff_success[of 0 func v maxRetries d] by simp
qed

theorem rate_limit_is_retried_by_fetchWithBackoff_witness:
  "fetchWithBackoff (script [answer 429 JsonNull, Inl (NetworkError ''reset'')] (answer 200 (JsonDoc (Some ''Report.''))))
       3 1000 start =
     (answer 200 (JsonDoc (Some ''Report.'')), \<lparr>calls = 3, slept = [1000, 2000]\<rparr>)
   \<and> res_status (p0_handler settings
        \<lparr>gemini = script [answer 429 JsonNull, answer 429 JsonNull] (answer 200 (JsonDoc (Some ''Report.''))),
         airtable = script [] (answer 200 JsonNull), clock = ''2025-01-02T03:04:05.000Z''\<rparr>
        (POST scenario)) = 200
   \<and> length (generation_log (p0_handler settings
        \<lparr>gemini = script [answer 429 JsonNull, answer 429 JsonNull] (answer 200 (JsonDoc (Some ''Report.''))),
         airtable = script [] (answer 200 JsonNull), clock = ''2025-01-02T03:04:05.000Z''\<rparr>
        (POST scenario))) = 3
   \<and> exponentialBackoff (script [] (map_sum id Some (answer 429 JsonNull))) 5 1000
      = (map_sum id Some (answer 429 JsonNull), \<lparr>calls = 1, slept = []\<rparr>)"
  using rate_limit_is_retried_by_fetchWithBackoff
    [where fetch = "script [answer 429 JsonNull, Inl (NetworkError ''reset'')] (answer 200 (JsonDoc (Some ''Report.'')))"
       and k = 2 and retries = 3 and delay = 1000
       and r = "\<lparr>status = 200, statusText = [], text_body = [], json_body = JsonDoc (Some ''Report.'')\<rparr>"
       and env = settings
       and w = "\<lparr>gemini = script [answer 429 JsonNull, answer 429 JsonNull] (answer 200 (JsonDoc (Some ''Report.''))),
         airtable = script [] (answer 200 JsonNull), clock = ''2025-01-02T03:04:05.000Z''\<rparr>"
       and ?r3.0 = "\<lparr>status = 200, statusText = [], text_body = [], json_body = JsonDoc (Some ''Report.'')\<rparr>"
       and ?r2.0 = "\<lparr>status = 200, statusText = [], text_body = [], json_body = JsonNull\<rparr>"
       and b = scenario and s = "''150+''"
       and func = "script [] (map_sum id Some (answer 429 JsonNull))" and maxRetries = 5 and d = 1000
       and v = "Some \<lparr>status = 429, statusText = [], text_body = [], json_body = JsonNull\<rparr>"]
  by (simp add: script_def ok_def missingEnvironment_def unset_def upt_conv_Cons less_Suc_eq)

text \<open>
  The claim fails on \<^verbatim>\<open>exponentialBackoff\<close>: when the generation service answers 429, 429,
  200, the handler of \<^verbatim>\<open>api/generate-report.js\<close> calls it once, takes the 429 answer for
  the result, finds no report text in it and answers 500.
\<close>

theorem rate_limit_counterexample:
  "exponentialBackoff
      (script [map_sum id Some (answer 429 (JsonDoc None)), map_sum id Some (answer 429 (JsonDoc None))]
         (map_sum id Some (answer 200 (JsonDoc (Some ''Report.''))))) 5 1000
     = (map_sum id Some (answer 429 (JsonDoc None)), \<lparr>calls = 1, slept = []\<rparr>)
   \<and> length (generation_log (gr_handler settings
        \<lparr>gemini = script [answer 429 (JsonDoc None), answer 429 (JsonDoc None)] (answer 200 (JsonDoc (Some ''Report.''))),
         airtable = script [] (answer 200 JsonNull), clock = ''2025-01-02T03:04:05.000Z''\<rparr>
        (POST scenario))) = 1
   \<and> res_status (gr_handler settings
        \<lparr>gemini = script [answer 429 (JsonDoc None), answer 429 (JsonDoc None)] (answer 200 (JsonDoc (Some ''Report.''))),
         airtable = script [] (answer 200 JsonNull), clock = ''2025-01-02T03:04:05.000Z''\<rparr>
        (POST scenario)) = 500"
  by (simp add: run_simps)

section \<open>Properties of rounding\<close>

lemma floor_rat_numeral: "\<lfloor>numeral a / numeral b :: rat\<rfloor> = numeral a div numeral b"
  by (metis floor_divide_of_int_eq of_int_numeral)

lemma scale_up_step:
  "scale_up x e =
     (if 4503599627370496 \<le> x \<or> e \<le> - 1074 then (x, e) else scale_up (2 * x) (e - 1))"
  by (subst scale_up.simps) simp

lemma scale_down_step:
  "scale_down x e =
     (if x < 9007199254740992 \<or> 972 \<le> e then (x, e) else scale_down (x / 2) (e + 1))"
  by (subst scale_down.simps) simp

text \<open>The equations that round a given rational.\<close>

lemmas round_simps =
  number_def nearest_double_def round_half_even_def normalise_def scale_up_step scale_down_step
  pow2_def floor_rat_numeral Let_def

lemma round_half_even_of_int: "round_half_even (of_int k) = k"
  by (simp add: round_half_even_def)

lemma scale_up_form: "\<exists>k. scale_up x e = (x * 2 ^ k, e - int k)"
proof (induction x e rule: scale_up.induct)
  case (1 x e)
  show ?case
  proof (cases "2 ^ 52 \<le> x \<or> e \<le> - 1074")
    case True
    then have "scale_up x e = (x * 2 ^ 0, e - int 0)" by (subst scale_up.simps) simp
    then show ?thesis by blast
  next
    case False
    from 1[OF False] obtain k where "scale_up (2 * x) (e - 1) = (2 * x * 2 ^ k, e - 1 - int k)"
      by blast
    then have "scale_up x e = (x * 2 ^ Suc k, e - int (Suc k))"
      using False by (subst scale_up.simps) simp
    then show ?thesis by blast
  qed
qed

text \<open>A whole number below \<open>2 ^ 53\<close> is a double.\<close>

lemma nearest_double_of_int:
  assumes "0 \<le> k" and "k < 2 ^ 53"
  shows "nearest_double (of_int k) = of_int k"
proof (cases "k = 0")
  case True
  then show ?thesis by (simp add: nearest_double_def)
next
  case False
  obtain j where j: "scale_up (of_int k) 0 = (of_int k * 2 ^ j, 0 - int j)"
    using scale_up_form by blast
  have lt: "(of_int k :: rat) < 2 ^ 53"
    using assms(2) by (metis of_int_less_numeral_power_cancel_iff)
  have "nearest_double (of_int k) = of_int (round_half_even (of_int (k * 2 ^ j))) * pow2 (- int j)"
    using False lt j by (simp add: nearest_double_def normalise_def)
  also have "\<dots> = of_int (k * 2 ^ j) * pow2 (- int j)"
    by (simp only: round_half_even_of_int)
  also have "\<dots> = of_int k"
    by (simp add: pow2_def)
  finally show ?thesis .
qed

lemma below_overflow:
  assumes "k < 2 ^ 53"
  shows "\<not> 2 ^ 1024 \<le> (of_int k :: rat)"
proof -
  have "(of_int k :: rat) < 2 ^ 53"
    using assms by (metis of_int_less_numeral_power_cancel_iff)
  also have "\<dots> < 2 ^ 1024" by simp
  finally show ?thesis by simp
qed

lemma number_of_nat:
  assumes "n < 2 ^ 53"
  shows "number False (of_nat n) = Fin (of_nat n)"
proof -
  have k: "int n < 2 ^ 53" using assms by (metis of_nat_less_numeral_power_cancel_iff)
  have nd: "nearest_double (of_nat n) = of_nat n"
    using nearest_double_of_int[of "int n"] k by simp
  have "\<not> 2 ^ 1024 \<le> (of_nat n :: rat)"
    using below_overflow[OF k] by simp
  then show ?thesis by (simp add: number_def nd Let_def)
qed

section \<open>Properties of the records and prompts\<close>

text \<open>The equations that read a number from a given text.\<close>

lemmas read_simps =
  parseFloat_def parseFloat_text_def parseInt_def parseInt_text_def StringToNumber_def trim_def
  StrDecimalLiteral_def ExponentPart_def sign_of_def is_space_def is_digit_def
  digit_of_def digits_value_def round_simps

lemma map_filter_absent:
  "k \<notin> fst ` set fs \<Longrightarrow>
   map_of (List.map_filter (\<lambda>(k, v). map_option (Pair k) (json_of v)) fs) k = None"
  by (induction fs) (auto simp: List.map_filter_simps split: option.splits)

lemma map_of_JSON_stringify:
  "distinct (map fst fs) \<Longrightarrow> map_of (JSON_stringify fs) k = Option.bind (map_of fs k) json_of"
  unfolding JSON_stringify_def
proof (induction fs)
  case Nil
  then show ?case by (simp add: List.map_filter_simps)
next
  case (Cons a fs)
  obtain k' v where a: "a = (k', v)" by (cases a)
  show ?case
  proof (cases "k' = k")
    case True
    with Cons.prems a have "k \<notin> fst ` set fs" by auto
    then show ?thesis using a True
      by (cases "json_of v") (simp_all add: List.map_filter_simps map_filter_absent)
  next
    case False
    then show ?thesis using a Cons
      by (cases "json_of v") (simp_all add: List.map_filter_simps)
  qed
qed

lemma gr_airtablePayload_distinct: "distinct (map fst (gr_airtablePayload b rep))"
  by (simp add: gr_airtablePayload_def)

lemma p0_airtablePayload_distinct: "distinct (map fst (p0_airtablePayload b rep iv now))"
  by (simp add: p0_airtablePayload_def)

lemmas gr_sent = map_of_JSON_stringify[OF gr_airtablePayload_distinct]
lemmas p0_sent = map_of_JSON_stringify[OF p0_airtablePayload_distinct]

lemma gr_Segments:
  "\<not> truthy (isCascade b) \<Longrightarrow>
   map_of (JSON_stringify (gr_airtablePayload b rep)) ''Segments'' = Some (JNumber 1)"
  by (simp add: gr_sent) (simp add: gr_airtablePayload_def)

lemma p0_Segments:
  "\<not> truthy (isCascade b) \<Longrightarrow>
   map_of (JSON_stringify (p0_airtablePayload b rep iv now)) ''Segments'' = Some JNull"
  by (simp add: p0_sent) (simp add: p0_airtablePayload_def)

lemma gr_persistence_log:
  "c \<in> set (persistence_log (gr_handler env w (POST b))) \<Longrightarrow>
   \<exists>rep. rec_fields c = JSON_stringify (gr_airtablePayload b rep)"
  by (auto simp add: gr_handler_def gr_save_def gr_failure_def POST_def Let_def
      split: prod.splits sum.splits option.splits json_reply.splits if_splits)

lemma p0_persistence_log:
  "c \<in> set (persistence_log (p0_handler env w (POST b))) \<Longrightarrow>
   \<exists>rep iv. rec_fields c = JSON_stringify (p0_airtablePayload b rep iv (clock w))"
  by (auto simp add: p0_handler_def p0_save_def p0_failure_def POST_def Let_def
      split: prod.splits sum.splits option.splits json_reply.splits if_splits)

lemma gr_generation_prompt:
  "c \<in> set (generation_log (gr_handler env w (POST b))) \<Longrightarrow> gen_prompt c = prompt b"
  by (auto simp add: gr_generation_log)

lemma p0_generation_prompt:
  "c \<in> set (generation_log (p0_handler env w (POST b))) \<Longrightarrow> gen_prompt c = userQuery b"
  by (auto simp add: p0_handler_def p0_save_generation_log p0_failure_def POST_def Let_def
      split: prod.splits sum.splits option.splits json_reply.splits if_splits)

lemma prompt_no_cascade:
  "\<not> truthy (isCascade b) \<Longrightarrow> prompt (b\<lparr>isCascade := Bool False, segments := s\<rparr>) = prompt b"
  by (simp add: prompt_def)

lemma userQuery_no_cascade:
  "\<not> truthy (isCascade b) \<Longrightarrow> userQuery (b\<lparr>isCascade := Bool False, segments := s\<rparr>) = userQuery b"
  by (simp add: userQuery_def cascadeClause_def)

text \<open>What a text includes: \<open>js_includes s p\<close> holds when \<open>p\<close> occurs somewhere in \<open>s\<close>.\<close>

lemma starts_with_Nil: "starts_with s [] = True"
  by (simp add: starts_with_def)

lemma starts_with_Cons: "starts_with (c # cs) (d # ds) = (c = d \<and> starts_with cs ds)"
  by (simp add: starts_with_def)

lemma starts_with_empty: "starts_with [] (d # ds) = False"
  by (simp add: starts_with_def)

lemma starts_with_iff: "starts_with s p \<longleftrightarrow> (\<exists>b. s = p @ b)"
proof
  assume "starts_with s p"
  then have "s = p @ drop (length p) s"
    unfolding starts_with_def by (metis append_take_drop_id)
  then show "\<exists>b. s = p @ b" ..
next
  assume "\<exists>b. s = p @ b"
  then show "starts_with s p" by (auto simp: starts_with_def)
qed

lemma js_includes_iff: "js_includes s p \<longleftrightarrow> (\<exists>a b. s = a @ p @ b)"
proof (induction s)
  case Nil
  then show ?case by auto
next
  case (Cons c cs)
  show ?case
  proof
    assume "js_includes (c # cs) p"
    then consider "starts_with (c # cs) p" | "js_includes cs p" by auto
    then show "\<exists>a b. c # cs = a @ p @ b"
    proof cases
      case 1
      then obtain b where "c # cs = [] @ p @ b" using starts_with_iff by auto
      then show ?thesis by blast
    next
      case 2
      then obtain a b where "cs = a @ p @ b" using Cons.IH by blast
      then have "c # cs = (c # a) @ p @ b" by simp
      then show ?thesis by blast
    qed
  next
    assume "\<exists>a b. c # cs = a @ p @ b"
    then obtain a b where ab: "c # cs = a @ p @ b" by blast
    show "js_includes (c # cs) p"
    proof (cases a)
      case Nil
      then have "starts_with (c # cs) p" using ab starts_with_iff by auto
      then show ?thesis by simp
    next
      case (Cons x a')
      then have "cs = a' @ p @ b" using ab by simp
      then have "js_includes cs p" using Cons.IH by blast
      then show ?thesis by simp
    qed
  qed
qed

text \<open>
  A character \<open>s\<close> that is not in \<open>p\<close> separates: \<open>p\<close> occurs in \<open>xs @ s # ys\<close> only
  where it occurs in \<open>xs\<close> or in \<open>ys\<close>.
\<close>

lemma js_includes_split:
  assumes "s \<notin> set p" and "p \<noteq> []"
  shows "js_includes (xs @ s # ys) p \<longleftrightarrow> js_includes xs p \<or> js_includes ys p"
proof
  assume "js_includes (xs @ s # ys) p"
  then obtain a b where ab: "xs @ s # ys = a @ p @ b" using js_includes_iff by blast
  then consider us where "xs @ us = a" "s # ys = us @ p @ b"
    | us where "xs = a @ us" "us @ s # ys = p @ b"
    by (auto simp: append_eq_append_conv2)
  then show "js_includes xs p \<or> js_includes ys p"
  proof cases
    case 1
    show ?thesis
    proof (cases us)
      case Nil
      then have "s # ys = p @ b" using 1 by simp
      then have "s \<in> set p" using assms(2) by (cases p) auto
      then show ?thesis using assms(1) by simp
    next
      case (Cons u us')
      then have "ys = us' @ p @ b" using 1 by simp
      then show ?thesis using js_includes_iff by blast
    qed
  next
    case 2
    from 2(2) consider vs where "us @ vs = p" "s # ys = vs @ b"
      | vs where "us = p @ vs" "vs @ s # ys = b"
      by (auto simp: append_eq_append_conv2)
    then show ?thesis
    proof cases
      case 1
      show ?thesis
      proof (cases vs)
        case Nil
        then have "xs = a @ p @ []" using 2(1) 1 by simp
        then show ?thesis using js_includes_iff by blast
      next
        case (Cons v vs')
        then have "s \<in> set p" using 1 by auto
        then show ?thesis using assms(1) by simp
      qed
    next
      case 2
      then have "xs = a @ p @ vs" using \<open>xs = a @ us\<close> by simp
      then show ?thesis using js_includes_iff by blast
    qed
  qed
next
  assume "js_includes xs p \<or> js_includes ys p"
  then show "js_includes (xs @ s # ys) p"
  proof
    assume "js_includes xs p"
    then obtain a b where "xs = a @ p @ b" using js_includes_iff by blast
    then have "xs @ s # ys = a @ p @ (b @ s # ys)" by simp
    then show ?thesis using js_includes_iff by blast
  next
    assume "js_includes ys p"
    then obtain a b where "ys = a @ p @ b" using js_includes_iff by blast
    then have "xs @ s # ys = (xs @ s # a) @ p @ b" by simp
    then show ?thesis using js_includes_iff by blast
  qed
qed

lemma js_includes_after: "js_includes ys p \<Longrightarrow> js_includes (xs @ ys) p"
proof -
  assume "js_includes ys p"
  then obtain a b where "ys = a @ p @ b" using js_includes_iff by blast
  then have "xs @ ys = (xs @ a) @ p @ b" by simp
  then show ?thesis using js_includes_iff by blast
qed

text \<open>
  Without cascade, the user query of \<^verbatim>\<open>part_000\<close> mentions a cascade only if a field of
  the request does; with cascade, it announces one.
\<close>

lemma userQuery_mentions_no_cascade:
  assumes "\<not> truthy (isCascade b)"
    and "\<not> js_includes (toString (riverMile b)) ''cascade''"
    and "\<not> js_includes (toString (riverWidth b)) ''cascade''"
    and "\<not> js_includes (toString (driftTime b)) ''cascade''"
    and "\<not> js_includes (toString (current b)) ''cascade''"
    and "\<not> js_includes (toString (angle b)) ''cascade''"
    and "\<not> js_includes (toString (calculatedBoomLength b)) ''cascade''"
    and "\<not> js_includes (toString (tension b)) ''cascade''"
    and "\<not> js_includes (toString (interval b)) ''cascade''"
    and "\<not> js_includes (toString (anchorDetailsText b)) ''cascade''"
  shows "\<not> js_includes (userQuery b) ''cascade''"
  using assms
  by (simp add: userQuery_def cascadeClause_def js_includes_split starts_with_Cons starts_with_Nil
      starts_with_empty)

lemma userQuery_announces_cascade:
  assumes "truthy (isCascade b)"
  shows "js_includes (userQuery b) ''The deployment will utilize a cascade booming system with ''"
  using assms
  by (simp add: userQuery_def cascadeClause_def js_includes_after starts_with_Cons starts_with_Nil
      starts_with_empty)

text \<open>
  The prompt of \<^verbatim>\<open>api/generate-report.js\<close> has its two cascade lines whatever the flag;
  without cascade they read \<^verbatim>\<open>No\<close> and \<^verbatim>\<open>1\<close>.
\<close>

lemma prompt_cascade_lines:
  assumes "\<not> truthy (isCascade b)"
  shows "js_includes (prompt b) ''- Is Cascade Booming System Recommended?: No''"
    and "js_includes (prompt b) ''- Total segments (if cascade): 1''"
  using assms
  by (simp_all add: prompt_def js_includes_after starts_with_Cons starts_with_Nil starts_with_empty)

text \<open>
  Claim C7, amended. When the cascade flag of the request is false (or anything else that
  counts as false), every record sent to the persistence service has \<^verbatim>\<open>Segments\<close> 1
  (\<^verbatim>\<open>api/generate-report.js\<close>) or \<^verbatim>\<open>null\<close> (\<^verbatim>\<open>part_000\<close>), whatever the request's segment
  count. The prompt of \<^verbatim>\<open>part_000\<close> then has no cascade clause: its conditional sentence
  is the empty text, and the prompt mentions a cascade only if a field of the request
  itself does. The prompt of \<^verbatim>\<open>api/generate-report.js\<close> has its two cascade lines all the
  same: they read \<^verbatim>\<open>Is Cascade Booming System Recommended?: No\<close> and
  \<^verbatim>\<open>Total segments (if cascade): 1\<close>. Neither prompt depends on the segment count.
\<close>

theorem no_cascade_no_segments:
  "\<not> truthy (isCascade b) \<longrightarrow>
     (\<forall>c \<in> set (persistence_log (gr_handler env w (POST b))).
        map_of (rec_fields c) ''Segments'' = Some (JNumber 1))
   \<and> (\<forall>c \<in> set (persistence_log (p0_handler env w (POST b))).
        map_of (rec_fields c) ''Segments'' = Some JNull)
   \<and> (\<forall>c \<in> set (generation_log (gr_handler env w (POST b))).
        gen_prompt c = prompt (b\<lparr>isCascade := Bool False, segments := s\<rparr>)
        \<and> js_includes (gen_prompt c) ''- Is Cascade Booming System Recommended?: No''
        \<and> js_includes (gen_prompt c) ''- Total segments (if cascade): 1'')
   \<and> (\<forall>c \<in> set (generation_log (p0_handler env w (POST b))).
        gen_prompt c = userQuery (b\<lparr>isCascade := Bool False, segments := s\<rparr>)
        \<and> (\<not> js_includes (toString (riverMile b)) ''cascade''
           \<and> \<not> js_includes (toString (riverWidth b)) ''cascade''
           \<and> \<not> js_includes (toString (driftTime b)) ''cascade''
           \<and> \<not> js_includes (toString (current b)) ''cascade''
           \<and> \<not> js_includes (toString (angle b)) ''cascade''
           \<and> \<not> js_includes (toString (calculatedBoomLength b)) ''cascade''
           \<and> \<not> js_includes (toString (tension b)) ''cascade''
           \<and> \<not> js_includes (toString (interval b)) ''cascade''
           \<and> \<not> js_includes (toString (anchorDetailsText b)) ''cascade''
           \<longrightarrow> \<not> js_includes (gen_prompt c) ''cascade''))
   \<and> cascadeClause b = []"
proof (intro impI conjI ballI)
  assume f: "\<not> truthy (isCascade b)"
  show "cascadeClause b = []" using f by (simp add: cascadeClause_def)
  fix c
  show "map_of (rec_fields c) ''Segments'' = Some (JNumber 1)"
    if "c \<in> set (persistence_log (gr_handler env w (POST b)))"
    using gr_persistence_log[OF that] gr_Segments[OF f] by auto
  show "map_of (rec_fields c) ''Segments'' = Some JNull"
    if "c \<in> set (persistence_log (p0_handler env w (POST b)))"
    using p0_persistence_log[OF that] p0_Segments[OF f] by auto
next
  fix c
  assume f: "\<not> truthy (isCascade b)"
    and c: "c \<in> set (generation_log (gr_handler env w (POST b)))"
  show "gen_prompt c = prompt (b\<lparr>isCascade := Bool False, segments := s\<rparr>)"
    using gr_generation_prompt[OF c] prompt_no_cascade[OF f] by simp
  show "js_includes (gen_prompt c) ''- Is Cascade Booming System Recommended?: No''"
    using gr_generation_prompt[OF c] prompt_cascade_lines(1)[OF f] by simp
  show "js_includes (gen_prompt c) ''- Total segments (if cascade): 1''"
    using gr_generation_prompt[OF c] prompt_cascade_lines(2)[OF f] by simp
next
  fix c
  assume f: "\<not> truthy (isCascade b)"
    and c: "c \<in> set (generation_log (p0_handler env w (POST b)))"
  show "gen_prompt c = userQuery (b\<lparr>isCascade := Bool False, segments := s\<rparr>)"
    using p0_generation_prompt[OF c] userQuery_no_cascade[OF f] by simp
next
  fix c
  assume f: "\<not> truthy (isCascade b)"
    and c: "c \<in> set (generation_log (p0_handler env w (POST b)))"
    and t: "\<not> js_includes (toString (riverMile b)) ''cascade''
           \<and> \<not> js_includes (toString (riverWidth b)) ''cascade''
           \<and> \<not> js_includes (toString (driftTime b)) ''cascade''
           \<and> \<not> js_includes (toString (current b)) ''cascade''
           \<and> \<not> js_includes (toString (angle b)) ''cascade''
           \<and> \<not> js_includes (toString (calculatedBoomLength b)) ''cascade''
           \<and> \<not> js_includes (toString (tension b)) ''cascade''
           \<and> \<not> js_includes (toString (interval b)) ''cascade''
           \<and> \<not> js_includes (toString (anchorDetailsText b)) ''cascade''"
  have "\<not> js_includes (userQuery b) ''cascade''"
    using t by (intro userQuery_mentions_no_cascade[OF f]) blast+
  then show "\<not> js_includes (gen_prompt c) ''cascade''"
    using p0_generation_prompt[OF c] by simp
qed

theorem no_cascade_no_segments_witness:
  "\<not> truthy (isCascade (scenario\<lparr>isCascade := Bool False, segments := Str ''3''\<rparr>))
   \<and> list_all (\<lambda>c. map_of (rec_fields c) ''Segments'' = Some (JNumber 1))
        (persistence_log (gr_handler settings
           \<lparr>gemini = script [] (answer 200 (JsonDoc (Some ''Report.''))),
            airtable = script [] (answer 200 JsonNull), clock = ''2025-01-02T03:04:05.000Z''\<rparr>
           (POST (scenario\<lparr>isCascade := Bool False, segments := Str ''3''\<rparr>))))
   \<and> length (persistence_log (gr_handler settings
           \<lparr>gemini = script [] (answer 200 (JsonDoc (Some ''Report.''))),
            airtable = script [] (answer 200 JsonNull), clock = ''2025-01-02T03:04:05.000Z''\<rparr>
           (POST (scenario\<lparr>isCascade := Bool False, segments := Str ''3''\<rparr>)))) = 1
   \<and> list_all (\<lambda>c. map_of (rec_fields c) ''Segments'' = Some JNull)
        (persistence_log (p0_handler settings
           \<lparr>gemini = script [] (answer 200 (JsonDoc (Some ''Report.''))),
            airtable = script [] (answer 200 JsonNull), clock = ''2025-01-02T03:04:05.000Z''\<rparr>
           (POST (scenario\<lparr>isCascade := Bool False, segments := Str ''3''\<rparr>))))
   \<and> length (persistence_log (p0_handler settings
           \<lparr>gemini = script [] (answer 200 (JsonDoc (Some ''Report.''))),
            airtable = script [] (answer 200 JsonNull), clock = ''2025-01-02T03:04:05.000Z''\<rparr>
           (POST (scenario\<lparr>isCascade := Bool False, segments := Str ''3''\<rparr>)))) = 1
   \<and> cascadeClause (scenario\<lparr>isCascade := Bool False, segments := Str ''3''\<rparr>) = []
   \<and> list_all (\<lambda>c. \<not> js_includes (gen_prompt c) ''cascade'')
        (generation_log (p0_handler settings
           \<lparr>gemini = script [] (answer 200 (JsonDoc (Some ''Report.''))),
            airtable = script [] (answer 200 JsonNull), clock = ''2025-01-02T03:04:05.000Z''\<rparr>
           (POST (scenario\<lparr>isCascade := Bool False, segments := Str ''3''\<rparr>))))
   \<and> length (generation_log (p0_handler settings
           \<lparr>gemini = script [] (answer 200 (JsonDoc (Some ''Report.''))),
            airtable = script [] (answer 200 JsonNull), clock = ''2025-01-02T03:04:05.000Z''\<rparr>
           (POST (scenario\<lparr>isCascade := Bool False, segments := Str ''3''\<rparr>)))) = 1
   \<and> list_all (\<lambda>c. js_includes (gen_prompt c) ''- Total segments (if cascade): 1'')
        (generation_log (gr_handler settings
           \<lparr>gemini = script [] (answer 200 (JsonDoc (Some ''Report.''))),
            airtable = script [] (answer 200 JsonNull), clock = ''2025-01-02T03:04:05.000Z''\<rparr>
           (POST (scenario\<lparr>isCascade := Bool False, segments := Str ''3''\<rparr>))))
   \<and> length (generation_log (gr_handler settings
           \<lparr>gemini = script [] (answer 200 (JsonDoc (Some ''Report.''))),
            airtable = script [] (answer 200 JsonNull), clock = ''2025-01-02T03:04:05.000Z''\<rparr>
           (POST (scenario\<lparr>isCascade := Bool False, segments := Str ''3''\<rparr>)))) = 1"
proof -
  let ?w = "\<lparr>gemini = script [] (answer 200 (JsonDoc (Some ''Report.''))),
            airtable = script [] (answer 200 JsonNull), clock = ''2025-01-02T03:04:05.000Z''\<rparr>"
  let ?b = "scenario\<lparr>isCascade := Bool False, segments := Str ''3''\<rparr>"
  have flag: "\<not> truthy (isCascade ?b)" by simp
  have n1: "length (persistence_log (gr_handler settings ?w (POST ?b))) = 1"
    by (simp add: run_simps)
  have n2: "length (persistence_log (p0_handler settings ?w (POST ?b))) = 1"
    by (simp add: run_simps intervalValueForAirtable_def)
  have n3: "length (generation_log (p0_handler settings ?w (POST ?b))) = 1"
    by (simp add: run_simps intervalValueForAirtable_def)
  have n4: "length (generation_log (gr_handler settings ?w (POST ?b))) = 1"
    by (simp add: run_simps)
  have own: "\<not> js_includes (toString (riverMile ?b)) ''cascade''
           \<and> \<not> js_includes (toString (riverWidth ?b)) ''cascade''
           \<and> \<not> js_includes (toString (driftTime ?b)) ''cascade''
           \<and> \<not> js_includes (toString (current ?b)) ''cascade''
           \<and> \<not> js_includes (toString (angle ?b)) ''cascade''
           \<and> \<not> js_includes (toString (calculatedBoomLength ?b)) ''cascade''
           \<and> \<not> js_includes (toString (tension ?b)) ''cascade''
           \<and> \<not> js_includes (toString (interval ?b)) ''cascade''
           \<and> \<not> js_includes (toString (anchorDetailsText ?b)) ''cascade''"
    by (simp add: starts_with_Cons starts_with_empty)
  from no_cascade_no_segments[where b = ?b and env = settings and w = ?w] flag own n1 n2 n3 n4
  show ?thesis unfolding list_all_iff by blast
qed

text \<open>
  The claim fails on the prompt of \<^verbatim>\<open>api/generate-report.js\<close>: without cascade it still
  carries the two cascade lines, and its instructions ask for a recommendation on a
  cascade booming system.
\<close>

theorem cascade_lines_counterexample:
  "\<not> truthy (isCascade (scenario\<lparr>isCascade := Bool False\<rparr>))
   \<and> length (generation_log (gr_handler settings
        \<lparr>gemini = script [] (answer 200 (JsonDoc (Some ''Report.''))),
         airtable = script [] (answer 200 JsonNull), clock = ''2025-01-02T03:04:05.000Z''\<rparr>
        (POST (scenario\<lparr>isCascade := Bool False\<rparr>)))) = 1
   \<and> js_includes (gen_prompt (hd (generation_log (gr_handler settings
        \<lparr>gemini = script [] (answer 200 (JsonDoc (Some ''Report.''))),
         airtable = script [] (answer 200 JsonNull), clock = ''2025-01-02T03:04:05.000Z''\<rparr>
        (POST (scenario\<lparr>isCascade := Bool False\<rparr>))))))
        ''- Is Cascade Booming System Recommended?: No''
   \<and> js_includes (gen_prompt (hd (generation_log (gr_handler settings
        \<lparr>gemini = script [] (answer 200 (JsonDoc (Some ''Report.''))),
         airtable = script [] (answer 200 JsonNull), clock = ''2025-01-02T03:04:05.000Z''\<rparr>
        (POST (scenario\<lparr>isCascade := Bool False\<rparr>))))))
        ''- Total segments (if cascade): 1''
   \<and> js_includes (gen_prompt (hd (generation_log (gr_handler settings
        \<lparr>gemini = script [] (answer 200 (JsonDoc (Some ''Report.''))),
         airtable = script [] (answer 200 JsonNull), clock = ''2025-01-02T03:04:05.000Z''\<rparr>
        (POST (scenario\<lparr>isCascade := Bool False\<rparr>))))))
        ''a cascade booming system''"
proof -
  let ?w = "\<lparr>gemini = script [] (answer 200 (JsonDoc (Some ''Report.''))),
            airtable = script [] (answer 200 JsonNull), clock = ''2025-01-02T03:04:05.000Z''\<rparr>"
  let ?b = "scenario\<lparr>isCascade := Bool False\<rparr>"
  have flag: "\<not> truthy (isCascade ?b)" by simp
  have n: "length (generation_log (gr_handler settings ?w (POST ?b))) = 1"
    by (simp add: run_simps)
  have p: "gen_prompt (hd (generation_log (gr_handler settings ?w (POST ?b)))) = prompt ?b"
    by (simp add: run_simps)
  have m: "js_includes (prompt ?b) ''a cascade booming system''"
    by (simp add: prompt_def starts_with_Cons starts_with_Nil starts_with_empty)
  show ?thesis
    unfolding p using flag n prompt_cascade_lines[OF flag] m by blast
qed

lemma divide_num_finite:
  assumes "q \<noteq> 0"
  shows "divide_num (Fin p) (Fin q) = number ((p < 0) \<noteq> (q < 0)) (\<bar>p\<bar> / \<bar>q\<bar>)"
  using assms by (simp add: divide_num_def)

text \<open>
  What is sent for the quotient of two finite numbers: the double nearest to the exact
  quotient, and \<^verbatim>\<open>null\<close> when that is beyond the largest double.
\<close>

lemma quotient_sent:
  assumes "q \<noteq> 0"
  shows "json_of (Num (parseFloat_number (divide_num (Fin p) (Fin q)))) =
         Some (if 2 ^ 1024 \<le> nearest_double \<bar>p / q\<bar> then JNull
               else JNumber (if p / q < 0 then - nearest_double \<bar>p / q\<bar>
                             else nearest_double \<bar>p / q\<bar>))"
proof -
  define r where "r = nearest_double \<bar>p / q\<bar>"
  define neg where "neg = ((p < 0) \<noteq> (q < 0))"
  have d: "divide_num (Fin p) (Fin q) = number neg \<bar>p / q\<bar>"
    using assms by (simp add: divide_num_finite neg_def)
  have n: "number neg \<bar>p / q\<bar> =
      (if r = 0 then (if neg then NegZero else Fin 0)
       else if 2 ^ 1024 \<le> r then (if neg then NegInf else PosInf)
       else Fin (if neg then - r else r))"
    unfolding number_def r_def Let_def ..
  have s: "neg = (p / q < 0)" if "r \<noteq> 0"
  proof -
    have "p \<noteq> 0" using that by (auto simp: r_def nearest_double_def)
    then consider "p < 0" "q < 0" | "p < 0" "0 < q" | "0 < p" "q < 0" | "0 < p" "0 < q"
      using assms by (meson linorder_neqE_linordered_idom)
    then show ?thesis
      by cases (simp_all add: neg_def divide_less_0_iff)
  qed
  have "json_of (Num (parseFloat_number (number neg \<bar>p / q\<bar>))) =
      Some (if 2 ^ 1024 \<le> r then JNull else JNumber (if p / q < 0 then - r else r))"
  proof (cases "r = 0")
    case True
    then show ?thesis unfolding n by (simp add: parseFloat_number_def)
  next
    case False
    then show ?thesis unfolding n using s[OF False] by (simp add: parseFloat_number_def)
  qed
  then show ?thesis unfolding d r_def .
qed

lemma quotient_sent_whole:
  assumes "q \<noteq> 0" and "p / q = of_int k" and "\<bar>k\<bar> < 2 ^ 53"
  shows "json_of (Num (parseFloat_number (divide_num (Fin p) (Fin q)))) = Some (JNumber (p / q))"
proof -
  have a: "\<bar>p / q\<bar> = of_int \<bar>k\<bar>" using assms(2) by simp
  have nd: "nearest_double \<bar>p / q\<bar> = \<bar>p / q\<bar>"
    unfolding a using assms(3) by (intro nearest_double_of_int) simp_all
  have "\<not> 2 ^ 1024 \<le> \<bar>p / q\<bar>"
    unfolding a by (rule below_overflow[OF assms(3)])
  moreover have "(if p / q < 0 then - \<bar>p / q\<bar> else \<bar>p / q\<bar>) = p / q"
    by (simp only: abs_if) simp
  ultimately show ?thesis
    by (simp only: quotient_sent[OF assms(1)] nd if_False)
qed

lemma quotient_by_zero_sent:
  assumes "d = Fin 0 \<or> d = NegZero"
  shows "json_of (Num (parseFloat_number (divide_num (Fin p) d))) = Some JNull"
  using assms by (auto simp add: divide_num_def parseFloat_number_def split: if_splits)

lemma gr_Seg_Length:
  "map_of (JSON_stringify (gr_airtablePayload b rep)) ''Seg Length'' =
   json_of (Num (parseFloat_number (divide_num (ToNumber (calculatedBoomLength b)) (ToNumber (segments b)))))"
  by (simp add: gr_sent) (simp add: gr_airtablePayload_def)

lemma p0_Seg_Length:
  "map_of (JSON_stringify (p0_airtablePayload b rep iv now)) ''Seg Length'' = None"
  by (simp add: p0_sent) (simp add: p0_airtablePayload_def)

text \<open>
  Claim C9, amended. The handler of \<^verbatim>\<open>api/generate-report.js\<close> persists as
  \<^verbatim>\<open>Seg Length\<close> the calculated boom length divided by the segment count, both read as
  numbers, for every request: the cascade flag plays no part in it. The division is the
  one of doubles: for finite numbers \<open>p\<close> and \<open>q \<noteq> 0\<close> the field is the double nearest
  to \<open>p / q\<close>, and \<^verbatim>\<open>null\<close> when the quotient rounds beyond the largest double; it is
  \<open>p / q\<close> itself when the quotient is a whole number of magnitude below \<open>2 ^ 53\<close>. For a
  segment count of zero the field is \<^verbatim>\<open>null\<close>. The handler of \<^verbatim>\<open>part_000\<close> persists no
  segment length.
\<close>

theorem segment_length_is_quotient:
  "(ToNumber (calculatedBoomLength b) = Fin p \<and> ToNumber (segments b) = Fin q \<and> q \<noteq> 0 \<longrightarrow>
      (\<forall>c \<in> set (persistence_log (gr_handler env w (POST b))).
         map_of (rec_fields c) ''Seg Length'' =
           Some (if 2 ^ 1024 \<le> nearest_double \<bar>p / q\<bar> then JNull
                 else JNumber (if p / q < 0 then - nearest_double \<bar>p / q\<bar>
                               else nearest_double \<bar>p / q\<bar>))))
   \<and> (ToNumber (calculatedBoomLength b) = Fin p \<and> ToNumber (segments b) = Fin q \<and> q \<noteq> 0
        \<and> p / q = of_int k \<and> \<bar>k\<bar> < 2 ^ 53 \<longrightarrow>
      (\<forall>c \<in> set (persistence_log (gr_handler env w (POST b))).
         map_of (rec_fields c) ''Seg Length'' = Some (JNumber (p / q))))
   \<and> (ToNumber (calculatedBoomLength b) = Fin p
        \<and> (ToNumber (segments b) = Fin 0 \<or> ToNumber (segments b) = NegZero) \<longrightarrow>
      (\<forall>c \<in> set (persistence_log (gr_handler env w (POST b))).
         map_of (rec_fields c) ''Seg Length'' = Some JNull))
   \<and> (\<forall>c \<in> set (persistence_log (p0_handler env w (POST b))).
         map_of (rec_fields c) ''Seg Length'' = None)"
proof (intro conjI impI ballI)
  fix c
  assume a: "ToNumber (calculatedBoomLength b) = Fin p
        \<and> (ToNumber (segments b) = Fin 0 \<or> ToNumber (segments b) = NegZero)"
    and c: "c \<in> set (persistence_log (gr_handler env w (POST b)))"
  from gr_persistence_log[OF c] obtain rep
    where "rec_fields c = JSON_stringify (gr_airtablePayload b rep)" ..
  then have "map_of (rec_fields c) ''Seg Length'' =
      json_of (Num (parseFloat_number (divide_num (Fin p) (ToNumber (segments b)))))"
    using a by (simp add: gr_Seg_Length)
  also have "\<dots> = Some JNull"
    using a by (intro quotient_by_zero_sent) simp
  finally show "map_of (rec_fields c) ''Seg Length'' = Some JNull" .
next
  fix c
  assume a: "ToNumber (calculatedBoomLength b) = Fin p \<and> ToNumber (segments b) = Fin q \<and> q \<noteq> 0"
    and c: "c \<in> set (persistence_log (gr_handler env w (POST b)))"
  from gr_persistence_log[OF c] obtain rep
    where "rec_fields c = JSON_stringify (gr_airtablePayload b rep)" ..
  then have "map_of (rec_fields c) ''Seg Length'' =
      json_of (Num (parseFloat_number (divide_num (Fin p) (Fin q))))"
    using a by (simp add: gr_Seg_Length)
  also have "\<dots> = Some (if 2 ^ 1024 \<le> nearest_double \<bar>p / q\<bar> then JNull
                 else JNumber (if p / q < 0 then - nearest_double \<bar>p / q\<bar>
                               else nearest_double \<bar>p / q\<bar>))"
    using a by (intro quotient_sent) simp
  finally show "map_of (rec_fields c) ''Seg Length'' =
           Some (if 2 ^ 1024 \<le> nearest_double \<bar>p / q\<bar> then JNull
                 else JNumber (if p / q < 0 then - nearest_double \<bar>p / q\<bar>
                               else nearest_double \<bar>p / q\<bar>))" .
next
  fix c
  assume a: "ToNumber (calculatedBoomLength b) = Fin p \<and> ToNumber (segments b) = Fin q \<and> q \<noteq> 0
        \<and> p / q = of_int k \<and> \<bar>k\<bar> < 2 ^ 53"
    and c: "c \<in> set (persistence_log (gr_handler env w (POST b)))"
  from gr_persistence_log[OF c] obtain rep
    where "rec_fields c = JSON_stringify (gr_airtablePayload b rep)" ..
  then have "map_of (rec_fields c) ''Seg Length'' =
      json_of (Num (parseFloat_number (divide_num (Fin p) (Fin q))))"
    using a by (simp add: gr_Seg_Length)
  also have "\<dots> = Some (JNumber (p / q))"
    using a by (intro quotient_sent_whole[where k = k]) simp_all
  finally show "map_of (rec_fields c) ''Seg Length'' = Some (JNumber (p / q))" .
next
  fix c
  assume c: "c \<in> set (persistence_log (p0_handler env w (POST b)))"
  from p0_persistence_log[OF c] obtain rep iv
    where "rec_fields c = JSON_stringify (p0_airtablePayload b rep iv (clock w))" by blast
  then show "map_of (rec_fields c) ''Seg Length'' = None"
    by (simp add: p0_Seg_Length)
qed

theorem segment_length_is_quotient_witness:
  "ToNumber (calculatedBoomLength (scenario\<lparr>isCascade := Bool False\<rparr>)) = Fin 350
   \<and> ToNumber (segments (scenario\<lparr>isCascade := Bool False\<rparr>)) = Fin 2
   \<and> list_all (\<lambda>c. map_of (rec_fields c) ''Seg Length'' = Some (JNumber 175))
        (persistence_log (gr_handler settings
           \<lparr>gemini = script [] (answer 200 (JsonDoc (Some ''Report.''))),
            airtable = script [] (answer 200 JsonNull), clock = ''2025-01-02T03:04:05.000Z''\<rparr>
           (POST (scenario\<lparr>isCascade := Bool False\<rparr>))))
   \<and> length (persistence_log (gr_handler settings
           \<lparr>gemini = script [] (answer 200 (JsonDoc (Some ''Report.''))),
            airtable = script [] (answer 200 JsonNull), clock = ''2025-01-02T03:04:05.000Z''\<rparr>
           (POST (scenario\<lparr>isCascade := Bool False\<rparr>)))) = 1
   \<and> ToNumber (segments (scenario\<lparr>segments := Str ''3''\<rparr>)) = Fin 3
   \<and> list_all (\<lambda>c. map_of (rec_fields c) ''Seg Length''
                  = Some (JNumber (8209686820727467 / 70368744177664)))
        (persistence_log (gr_handler settings
           \<lparr>gemini = script [] (answer 200 (JsonDoc (Some ''Report.''))),
            airtable = script [] (answer 200 JsonNull), clock = ''2025-01-02T03:04:05.000Z''\<rparr>
           (POST (scenario\<lparr>segments := Str ''3''\<rparr>))))
   \<and> length (persistence_log (gr_handler settings
           \<lparr>gemini = script [] (answer 200 (JsonDoc (Some ''Report.''))),
            airtable = script [] (answer 200 JsonNull), clock = ''2025-01-02T03:04:05.000Z''\<rparr>
           (POST (scenario\<lparr>segments := Str ''3''\<rparr>)))) = 1
   \<and> ToNumber (segments (scenario\<lparr>segments := Str ''0''\<rparr>)) = Fin 0
   \<and> list_all (\<lambda>c. map_of (rec_fields c) ''Seg Length'' = Some JNull)
        (persistence_log (gr_handler settings
           \<lparr>gemini = script [] (answer 200 (JsonDoc (Some ''Report.''))),
            airtable = script [] (answer 200 JsonNull), clock = ''2025-01-02T03:04:05.000Z''\<rparr>
           (POST (scenario\<lparr>segments := Str ''0''\<rparr>))))
   \<and> length (persistence_log (gr_handler settings
           \<lparr>gemini = script [] (answer 200 (JsonDoc (Some ''Report.''))),
            airtable = script [] (answer 200 JsonNull), clock = ''2025-01-02T03:04:05.000Z''\<rparr>
           (POST (scenario\<lparr>segments := Str ''0''\<rparr>)))) = 1"
proof -
  let ?w = "\<lparr>gemini = script [] (answer 200 (JsonDoc (Some ''Report.''))),
            airtable = script [] (answer 200 JsonNull), clock = ''2025-01-02T03:04:05.000Z''\<rparr>"
  let ?b = "scenario\<lparr>isCascade := Bool False\<rparr>"
  let ?bt = "scenario\<lparr>segments := Str ''3''\<rparr>"
  let ?bz = "scenario\<lparr>segments := Str ''0''\<rparr>"
  have p: "ToNumber (calculatedBoomLength ?b) = Fin 350" by (simp add: read_simps)
  have q: "ToNumber (segments ?b) = Fin 2" by (simp add: read_simps)
  have p3: "ToNumber (calculatedBoomLength ?bt) = Fin 350" by (simp add: read_simps)
  have q3: "ToNumber (segments ?bt) = Fin 3" by (simp add: read_simps)
  have n: "length (persistence_log (gr_handler settings ?w (POST ?b))) = 1"
    by (simp add: run_simps)
  have n3: "length (persistence_log (gr_handler settings ?w (POST ?bt))) = 1"
    by (simp add: run_simps)
  have p0: "ToNumber (calculatedBoomLength ?bz) = Fin 350" by (simp add: read_simps)
  have q0: "ToNumber (segments ?bz) = Fin 0" by (simp add: read_simps)
  have n0: "length (persistence_log (gr_handler settings ?w (POST ?bz))) = 1"
    by (simp add: run_simps)
  have r: "nearest_double (350 / 3) = 8209686820727467 / 70368744177664"
    and r2: "nearest_double 175 = 175"
    by (simp_all add: round_simps)
  from segment_length_is_quotient[where b = ?b and p = 350 and q = 2 and k = 175
      and env = settings and w = ?w] p q
  have "\<forall>c \<in> set (persistence_log (gr_handler settings ?w (POST ?b))).
         map_of (rec_fields c) ''Seg Length'' = Some (JNumber 175)"
    by (simp add: r2)
  then have a: "list_all (\<lambda>c. map_of (rec_fields c) ''Seg Length'' = Some (JNumber 175))
      (persistence_log (gr_handler settings ?w (POST ?b)))"
    unfolding list_all_iff by blast
  from segment_length_is_quotient[where b = ?bt and p = 350 and q = 3 and k = 0
      and env = settings and w = ?w] p3 q3
  have "\<forall>c \<in> set (persistence_log (gr_handler settings ?w (POST ?bt))).
         map_of (rec_fields c) ''Seg Length'' = Some (JNumber (8209686820727467 / 70368744177664))"
    by (simp add: r)
  then have a3: "list_all (\<lambda>c. map_of (rec_fields c) ''Seg Length''
                  = Some (JNumber (8209686820727467 / 70368744177664)))
      (persistence_log (gr_handler settings ?w (POST ?bt)))"
    unfolding list_all_iff by blast
  from segment_length_is_quotient[where b = ?bz and p = 350 and q = 1 and k = 0
      and env = settings and w = ?w] p0 q0
  have "\<forall>c \<in> set (persistence_log (gr_handler settings ?w (POST ?bz))).
         map_of (rec_fields c) ''Seg Length'' = Some JNull"
    by simp
  then have a0: "list_all (\<lambda>c. map_of (rec_fields c) ''Seg Length'' = Some JNull)
      (persistence_log (gr_handler settings ?w (POST ?bz)))"
    unfolding list_all_iff by blast
  show ?thesis
    using p q q3 q0 n n3 n0 a a3 a0 by blast
qed

text \<open>
  The claim's "only when" fails: without cascade, a boom of 350 ft and a segment count of
  2 are persisted with a segment length of 175.
\<close>

theorem segment_length_counterexample:
  "\<not> truthy (isCascade (scenario\<lparr>isCascade := Bool False\<rparr>))
   \<and> map_of (JSON_stringify (gr_airtablePayload (scenario\<lparr>isCascade := Bool False\<rparr>) ''Report.''))
        ''Seg Length'' = Some (JNumber 175)
   \<and> map_of (JSON_stringify (gr_airtablePayload (scenario\<lparr>isCascade := Bool False\<rparr>) ''Report.''))
        ''Segments'' = Some (JNumber 1)"
  by (simp add: gr_sent) (simp add: gr_airtablePayload_def read_simps divide_num_def parseFloat_number_def)








lemma p0_persistence_log_interval:
  "c \<in> set (persistence_log (p0_handler env w (POST b))) \<Longrightarrow>
   \<exists>rep iv. intervalValueForAirtable (interval b) = Inr iv
     \<and> rec_fields c = JSON_stringify (p0_airtablePayload b rep iv (clock w))"
  by (auto simp add: p0_handler_def p0_save_def p0_failure_def POST_def Let_def
      split: prod.splits sum.splits option.splits json_reply.splits if_splits)






text \<open>
  In \<^verbatim>\<open>part_000\<close> an absent interval does stop the write: \<^verbatim>\<open>interval.includes\<close> raises a
  \<^verbatim>\<open>TypeError\<close> after the report was generated, and the handler answers 500 without
  calling the persistence service.
\<close>

lemma absent_interval_aborts_the_write:
  "res_status (p0_handler settings
        \<lparr>gemini = script [] (answer 200 (JsonDoc (Some ''Report.''))),
         airtable = script [] (answer 200 JsonNull), clock = ''2025-01-02T03:04:05.000Z''\<rparr>
        (POST (scenario\<lparr>interval := Undefined\<rparr>))) = 500
   \<and> length (generation_log (p0_handler settings
        \<lparr>gemini = script [] (answer 200 (JsonDoc (Some ''Report.''))),
         airtable = script [] (answer 200 JsonNull), clock = ''2025-01-02T03:04:05.000Z''\<rparr>
        (POST (scenario\<lparr>interval := Undefined\<rparr>)))) = 1
   \<and> persistence_log (p0_handler settings
        \<lparr>gemini = script [] (answer 200 (JsonDoc (Some ''Report.''))),
         airtable = script [] (answer 200 JsonNull), clock = ''2025-01-02T03:04:05.000Z''\<rparr>
        (POST (scenario\<lparr>interval := Undefined\<rparr>))) = []"
  by (simp add: run_simps intervalValueForAirtable_def)

section \<open>Properties of the interval\<close>

lemma is_digit_10: "is_digit 10 c \<longleftrightarrow> 48 \<le> (of_char c :: nat) \<and> (of_char c :: nat) \<le> 57"
  by (auto simp add: is_digit_def digit_of_def Let_def)

lemma digits_value_Nil: "digits_value radix [] = 0"
  by (simp add: digits_value_def)

lemma digit_is_no_mark:
  assumes "is_digit 10 c"
  shows "c \<noteq> CHR ''+''" "c \<noteq> CHR ''-''" "c \<noteq> CHR ''.''" "c \<noteq> CHR '' ''" "c \<noteq> CHR ''p''"
    "c \<noteq> CHR ''I''" "c \<noteq> CHR ''x''" "c \<noteq> CHR ''X''" "\<not> is_space c"
  using assms by (auto simp: is_digit_10 is_space_def)

lemma takeWhile_digits:
  assumes "list_all (is_digit 10) ds" and "r = [] \<or> \<not> is_digit 10 (hd r)"
  shows "takeWhile (is_digit 10) (ds @ r) = ds" and "dropWhile (is_digit 10) (ds @ r) = r"
proof -
  have all: "\<forall>x\<in>set ds. is_digit 10 x" using assms(1) by (simp add: list_all_iff)
  have r: "takeWhile (is_digit 10) r = []" "dropWhile (is_digit 10) r = r"
    using assms(2) by (cases r; simp)+
  show "takeWhile (is_digit 10) (ds @ r) = ds" using all r by simp
  show "dropWhile (is_digit 10) (ds @ r) = r" using all r by simp
qed

text \<open>Reading a decimal number that is followed by nothing or by a space.\<close>

lemma StrDecimalLiteral_whole:
  assumes "ip \<noteq> []" and "list_all (is_digit 10) ip" and "r = [] \<or> hd r = CHR '' ''"
  shows "StrDecimalLiteral (ip @ r) = (number False (of_nat (digits_value 10 ip)), r)"
proof -
  obtain c cs where ip: "ip = c # cs" using assms(1) by (cases ip) auto
  have c: "is_digit 10 c" using assms(2) ip by simp
  have stop: "r = [] \<or> \<not> is_digit 10 (hd r)"
    using assms(3) by (auto simp: is_digit_10)
  have sign: "sign_of (ip @ r) = (False, ip @ r)"
    using digit_is_no_mark[OF c] by (simp add: sign_of_def ip)
  have inf: "(take 8 (ip @ r) = ''Infinity'') = False"
    using digit_is_no_mark[OF c] by (simp add: ip)
  have tail: "(case r of [] \<Rightarrow> ([], r)
               | c # v \<Rightarrow> if c = CHR ''.'' then (takeWhile (is_digit 10) v, dropWhile (is_digit 10) v)
                          else ([], r)) = ([], r)"
    using assms(3) by (cases r) auto
  have ex: "ExponentPart r = (1, r)"
    using assms(3) by (cases r) (auto simp: ExponentPart_def)
  show ?thesis
    unfolding StrDecimalLiteral_def sign
    by (simp add: inf takeWhile_digits[OF assms(2) stop] tail ex assms(1)
          digits_value_Nil del: take_append)
qed

lemma StrDecimalLiteral_fraction:
  assumes "ip \<noteq> []" and "list_all (is_digit 10) ip" and "list_all (is_digit 10) fp"
    and "r = [] \<or> hd r = CHR '' ''"
  shows "StrDecimalLiteral (ip @ CHR ''.'' # fp @ r) =
         (number False (of_nat (digits_value 10 ip) + of_nat (digits_value 10 fp) / 10 ^ length fp), r)"
proof -
  obtain c cs where ip: "ip = c # cs" using assms(1) by (cases ip) auto
  have c: "is_digit 10 c" using assms(2) ip by simp
  have stop: "r = [] \<or> \<not> is_digit 10 (hd r)"
    using assms(4) by (auto simp: is_digit_10)
  have dot: "CHR ''.'' # fp @ r = [] \<or> \<not> is_digit 10 (hd (CHR ''.'' # fp @ r))"
    by (simp add: is_digit_10)
  have sign: "sign_of (ip @ CHR ''.'' # fp @ r) = (False, ip @ CHR ''.'' # fp @ r)"
    using digit_is_no_mark[OF c] by (simp add: sign_of_def ip)
  have inf: "(take 8 (ip @ CHR ''.'' # fp @ r) = ''Infinity'') = False"
    using digit_is_no_mark[OF c] by (simp add: ip)
  have ex: "ExponentPart r = (1, r)"
    using assms(4) by (cases r) (auto simp: ExponentPart_def)
  show ?thesis
    unfolding StrDecimalLiteral_def sign
    using takeWhile_digits[OF assms(2) dot] takeWhile_digits[OF assms(3) stop]
    by (simp add: inf ex assms(1) Let_def del: take_append)
qed

lemma parseFloat_whole:
  assumes "ip \<noteq> []" and "list_all (is_digit 10) ip" and "r = [] \<or> hd r = CHR '' ''"
  shows "parseFloat (Str (ip @ r)) = number False (of_nat (digits_value 10 ip))"
proof -
  obtain c cs where ip: "ip = c # cs" using assms(1) by (cases ip) auto
  have c: "is_digit 10 c" using assms(2) ip by simp
  have "dropWhile is_space (ip @ r) = ip @ r"
    using digit_is_no_mark[OF c] by (simp add: ip)
  then show ?thesis
    by (simp add: parseFloat_def parseFloat_text_def StrDecimalLiteral_whole[OF assms])
qed

lemma parseFloat_fraction:
  assumes "ip \<noteq> []" and "list_all (is_digit 10) ip" and "list_all (is_digit 10) fp"
    and "r = [] \<or> hd r = CHR '' ''"
  shows "parseFloat (Str (ip @ CHR ''.'' # fp @ r)) =
         number False (of_nat (digits_value 10 ip) + of_nat (digits_value 10 fp) / 10 ^ length fp)"
proof -
  obtain c cs where ip: "ip = c # cs" using assms(1) by (cases ip) auto
  have c: "is_digit 10 c" using assms(2) ip by simp
  have "dropWhile is_space (ip @ CHR ''.'' # fp @ r) = ip @ CHR ''.'' # fp @ r"
    using digit_is_no_mark[OF c] by (simp add: ip)
  then show ?thesis
    by (simp add: parseFloat_def parseFloat_text_def StrDecimalLiteral_fraction[OF assms])
qed

text \<open>\<^verbatim>\<open>parseInt\<close> stops at the first character that is not a digit.\<close>

lemma parseInt_whole:
  assumes "ip \<noteq> []" and "list_all (is_digit 10) ip"
    and "r = [] \<or> hd r \<in> {CHR ''+'', CHR '' '', CHR ''.''}"
  shows "parseInt (Str (ip @ r)) = number False (of_nat (digits_value 10 ip))"
proof -
  obtain c cs where ip: "ip = c # cs" using assms(1) by (cases ip) auto
  have c: "is_digit 10 c" using assms(2) ip by simp
  have stop: "r = [] \<or> \<not> is_digit 10 (hd r)"
    using assms(3) by (auto simp: is_digit_10)
  have sp: "dropWhile is_space (ip @ r) = ip @ r"
    using digit_is_no_mark[OF c] by (simp add: ip)
  have sign: "sign_of (ip @ r) = (False, ip @ r)"
    using digit_is_no_mark[OF c] by (simp add: sign_of_def ip)
  have second: "take 2 (ip @ r) \<noteq> ''0x'' \<and> take 2 (ip @ r) \<noteq> ''0X''"
  proof (cases cs)
    case Nil
    then show ?thesis using assms(3) by (cases r) (auto simp: ip)
  next
    case (Cons d ds)
    then have "is_digit 10 d" using assms(2) ip by simp
    then show ?thesis using digit_is_no_mark[of d] by (simp add: ip Cons)
  qed
  show ?thesis
    unfolding parseInt_def parseInt_text_def toString.simps sp sign
    using second by (simp add: takeWhile_digits[OF assms(2) stop] assms(1))
qed

lemma js_includes_single: "js_includes s [c] \<longleftrightarrow> c \<in> set s"
  by (induction s) (auto simp: starts_with_def)

lemma js_includes_needs_head: "js_includes s (c # p) \<Longrightarrow> c \<in> set s"
proof (induction s)
  case Nil
  then show ?case by simp
next
  case (Cons x xs)
  then show ?case by (auto simp: starts_with_def)
qed

lemma js_includes_here: "js_includes (p @ b) p"
proof -
  have "starts_with (p @ b) p" by (simp add: starts_with_def)
  then show ?thesis by (cases "p @ b") auto
qed

lemma js_includes_later: "js_includes (a @ p @ b) p"
  by (induction a) (simp_all add: js_includes_here)

lemma js_replace_skip: "c \<notin> set a \<Longrightarrow> js_replace (a @ b) [c] r = a @ js_replace b [c] r"
  by (induction a) (auto simp: starts_with_def)

lemma js_replace_none: "c \<notin> set b \<Longrightarrow> js_replace b [c] r = b"
  by (induction b) (auto simp: starts_with_def)

lemma js_split_first: "c \<notin> set a \<Longrightarrow> \<exists>ps. js_split (a @ c # b) c = a # ps"
  by (induction a) auto

lemma js_split_whole: "c \<notin> set a \<Longrightarrow> js_split a c = [a]"
  by (induction a) auto

text \<open>
  The three forms of the interval, for a leading text \<open>n\<close> without plus sign, space or
  the letter p, which \<^verbatim>\<open>parseFloat\<close> reads as \<open>v\<close> whether the text ends after it or
  goes on with a space.
\<close>

lemma interval_forms:
  assumes marks: "CHR ''+'' \<notin> set n" "CHR '' '' \<notin> set n" "CHR ''p'' \<notin> set n"
    and reads: "\<And>r. r = [] \<or> hd r = CHR '' '' \<Longrightarrow> parseFloat (Str (n @ r)) = v"
  shows "intervalValueForAirtable (Str (n @ ''+'')) = Inr v"
    and "intervalValueForAirtable (Str (n @ '' per '' @ u)) = Inr v"
    and "intervalValueForAirtable (Str n) = Inr v"
proof -
  have bare: "parseFloat (Str n) = v" using reads[of "[]"] by simp
  have "js_includes (n @ ''+'') ''+''" by (simp add: js_includes_single)
  moreover have "js_replace (n @ ''+'') ''+'' [] = n"
    using marks(1) by (simp add: js_replace_skip starts_with_def)
  ultimately show "intervalValueForAirtable (Str (n @ ''+'')) = Inr v"
    by (simp add: intervalValueForAirtable_def bare)
  show "intervalValueForAirtable (Str (n @ '' per '' @ u)) = Inr v"
  proof (cases "js_includes (n @ '' per '' @ u) ''+''")
    case True
    have "js_replace (n @ '' per '' @ u) ''+'' [] = n @ '' per '' @ js_replace u ''+'' []"
      using marks(1) js_replace_skip[of "CHR ''+''" "n @ '' per ''" u "[]"] by simp
    moreover have "parseFloat (Str (n @ '' per '' @ js_replace u ''+'' [])) = v"
      by (rule reads) simp
    ultimately show ?thesis using True by (simp add: intervalValueForAirtable_def)
  next
    case False
    have per: "js_includes (n @ '' per '' @ u) ''per''"
      using js_includes_later[of "n @ '' ''" "''per''" "'' '' @ u"] by simp
    obtain ps where "js_split (n @ '' per '' @ u) (CHR '' '') = n # ps"
      using js_split_first[OF marks(2), of "''per '' @ u"] by auto
    then have "first (js_split (n @ '' per '' @ u) (CHR '' '')) = Str n"
      by (simp add: first_def)
    then show ?thesis using False per by (simp add: intervalValueForAirtable_def bare)
  qed
  have "\<not> js_includes n ''+''" using marks(1) by (simp add: js_includes_single)
  moreover have "\<not> js_includes n ''per''" using marks(3) js_includes_needs_head by blast
  ultimately show "intervalValueForAirtable (Str n) = Inr v"
    by (simp add: intervalValueForAirtable_def bare)
qed

lemma digits_no_marks:
  assumes "list_all (is_digit 10) ds"
  shows "CHR ''+'' \<notin> set ds" "CHR '' '' \<notin> set ds" "CHR ''p'' \<notin> set ds"
proof -
  have all: "\<And>c. c \<in> set ds \<Longrightarrow> is_digit 10 c"
    using assms by (simp add: list_all_iff)
  show "CHR ''+'' \<notin> set ds" using all digit_is_no_mark(1) by blast
  show "CHR '' '' \<notin> set ds" using all digit_is_no_mark(4) by blast
  show "CHR ''p'' \<notin> set ds" using all digit_is_no_mark(5) by blast
qed

lemma interval_whole:
  assumes "ip \<noteq> []" and "list_all (is_digit 10) ip"
  shows "intervalValueForAirtable (Str (ip @ ''+'')) = Inr (number False (of_nat (digits_value 10 ip)))"
    and "intervalValueForAirtable (Str (ip @ '' per '' @ u)) = Inr (number False (of_nat (digits_value 10 ip)))"
    and "intervalValueForAirtable (Str ip) = Inr (number False (of_nat (digits_value 10 ip)))"
proof -
  note forms = interval_forms[OF digits_no_marks[OF assms(2)] parseFloat_whole[OF assms]]
  show "intervalValueForAirtable (Str (ip @ ''+'')) = Inr (number False (of_nat (digits_value 10 ip)))"
    by (rule forms(1))
  show "intervalValueForAirtable (Str (ip @ '' per '' @ u)) = Inr (number False (of_nat (digits_value 10 ip)))"
    by (rule forms(2))
  show "intervalValueForAirtable (Str ip) = Inr (number False (of_nat (digits_value 10 ip)))"
    by (rule forms(3))
qed

lemma interval_fraction:
  assumes "ip \<noteq> []" and "list_all (is_digit 10) ip" and "list_all (is_digit 10) fp"
  shows "intervalValueForAirtable (Str (ip @ ''.'' @ fp @ ''+'')) =
           Inr (number False (of_nat (digits_value 10 ip) + of_nat (digits_value 10 fp) / 10 ^ length fp))"
    and "intervalValueForAirtable (Str (ip @ ''.'' @ fp @ '' per '' @ u)) =
           Inr (number False (of_nat (digits_value 10 ip) + of_nat (digits_value 10 fp) / 10 ^ length fp))"
    and "intervalValueForAirtable (Str (ip @ ''.'' @ fp)) =
           Inr (number False (of_nat (digits_value 10 ip) + of_nat (digits_value 10 fp) / 10 ^ length fp))"
proof -
  let ?n = "ip @ CHR ''.'' # fp"
  let ?v = "number False (of_nat (digits_value 10 ip) + of_nat (digits_value 10 fp) / 10 ^ length fp)"
  have marks: "CHR ''+'' \<notin> set ?n" "CHR '' '' \<notin> set ?n" "CHR ''p'' \<notin> set ?n"
    using digits_no_marks[OF assms(2)] digits_no_marks[OF assms(3)] by simp_all
  have reads: "parseFloat (Str (?n @ r)) = ?v" if "r = [] \<or> hd r = CHR '' ''" for r
    using parseFloat_fraction[OF assms that] by simp
  note forms = interval_forms[OF marks reads]
  show "intervalValueForAirtable (Str (ip @ ''.'' @ fp @ ''+'')) = Inr ?v"
    using forms(1) by simp
  show "intervalValueForAirtable (Str (ip @ ''.'' @ fp @ '' per '' @ u)) = Inr ?v"
    using forms(2) by simp
  show "intervalValueForAirtable (Str (ip @ ''.'' @ fp)) = Inr ?v"
    using forms(3) by simp
qed

lemma gr_Anchor_Interval:
  "map_of (JSON_stringify (gr_airtablePayload b rep)) ''Anchor Interval'' = json_of (Num (parseInt (interval b)))"
  by (simp add: gr_sent) (simp add: gr_airtablePayload_def)

lemma p0_Anchor_Interval:
  "map_of (JSON_stringify (p0_airtablePayload b rep (Fin x) now)) ''Anchor Interval'' = Some (JNumber x)"
  by (simp add: p0_sent) (simp add: p0_airtablePayload_def Let_def nullIfNaN_def isNaN_def)

lemma parseInt_fraction:
  assumes "ip \<noteq> []" and "list_all (is_digit 10) ip"
  shows "parseInt (Str (ip @ ''.'' @ r)) = number False (of_nat (digits_value 10 ip))"
  using parseInt_whole[OF assms, of "CHR ''.'' # r"] by simp

text \<open>
  Claim C6, amended. Let \<open>N\<close> be a whole number below \<open>2 ^ 53\<close> written in decimal
  digits, so that a double holds it. For the intervals \<^verbatim>\<open>N+\<close>, \<^verbatim>\<open>N per <unit>\<close> (any unit)
  and \<^verbatim>\<open>N\<close>, both persisters parse the interval to \<open>N\<close>, and that number is the
  \<^verbatim>\<open>Anchor Interval\<close> of the record they send. Whatever its size, a whole number is parsed
  by both to the double nearest to it (\<^verbatim>\<open>9007199254740993+\<close> to 9007199254740992). For a number with a fraction, \<^verbatim>\<open>N.F\<close>, the persister
  of \<^verbatim>\<open>part_000\<close> (\<^verbatim>\<open>parseFloat\<close>) parses the three forms to the double nearest to that
  number, and the persister of \<^verbatim>\<open>api/generate-report.js\<close> (\<^verbatim>\<open>parseInt\<close>) parses them to its
  whole part \<open>N\<close>.
\<close>

theorem interval_reads_leading_number:
  "(ip \<noteq> [] \<and> list_all (is_digit 10) ip \<and> digits_value 10 ip < 2 ^ 53 \<longrightarrow>
      intervalValueForAirtable (Str (ip @ ''+'')) = Inr (Fin (of_nat (digits_value 10 ip)))
    \<and> intervalValueForAirtable (Str (ip @ '' per '' @ u)) = Inr (Fin (of_nat (digits_value 10 ip)))
    \<and> intervalValueForAirtable (Str ip) = Inr (Fin (of_nat (digits_value 10 ip)))
    \<and> parseInt (Str (ip @ ''+'')) = Fin (of_nat (digits_value 10 ip))
    \<and> parseInt (Str (ip @ '' per '' @ u)) = Fin (of_nat (digits_value 10 ip))
    \<and> parseInt (Str ip) = Fin (of_nat (digits_value 10 ip)))
   \<and>
   (ip \<noteq> [] \<and> list_all (is_digit 10) ip \<longrightarrow>
      intervalValueForAirtable (Str (ip @ ''+'')) = Inr (number False (of_nat (digits_value 10 ip)))
    \<and> intervalValueForAirtable (Str (ip @ '' per '' @ u)) = Inr (number False (of_nat (digits_value 10 ip)))
    \<and> intervalValueForAirtable (Str ip) = Inr (number False (of_nat (digits_value 10 ip)))
    \<and> parseInt (Str (ip @ ''+'')) = number False (of_nat (digits_value 10 ip))
    \<and> parseInt (Str (ip @ '' per '' @ u)) = number False (of_nat (digits_value 10 ip))
    \<and> parseInt (Str ip) = number False (of_nat (digits_value 10 ip)))
   \<and>
   (ip \<noteq> [] \<and> list_all (is_digit 10) ip \<and> list_all (is_digit 10) fp
      \<and> digits_value 10 ip < 2 ^ 53 \<longrightarrow>
      intervalValueForAirtable (Str (ip @ ''.'' @ fp @ ''+''))
        = Inr (number False (of_nat (digits_value 10 ip) + of_nat (digits_value 10 fp) / 10 ^ length fp))
    \<and> intervalValueForAirtable (Str (ip @ ''.'' @ fp @ '' per '' @ u))
        = Inr (number False (of_nat (digits_value 10 ip) + of_nat (digits_value 10 fp) / 10 ^ length fp))
    \<and> intervalValueForAirtable (Str (ip @ ''.'' @ fp))
        = Inr (number False (of_nat (digits_value 10 ip) + of_nat (digits_value 10 fp) / 10 ^ length fp))
    \<and> parseInt (Str (ip @ ''.'' @ fp @ ''+'')) = Fin (of_nat (digits_value 10 ip))
    \<and> parseInt (Str (ip @ ''.'' @ fp @ '' per '' @ u)) = Fin (of_nat (digits_value 10 ip))
    \<and> parseInt (Str (ip @ ''.'' @ fp)) = Fin (of_nat (digits_value 10 ip)))
   \<and>
   (intervalValueForAirtable (interval b) = Inr (Fin x) \<longrightarrow>
      (\<forall>c \<in> set (persistence_log (p0_handler env w (POST b))).
         map_of (rec_fields c) ''Anchor Interval'' = Some (JNumber x)))
   \<and>
   (parseInt (interval b) = Fin x \<longrightarrow>
      (\<forall>c \<in> set (persistence_log (gr_handler env w (POST b))).
         map_of (rec_fields c) ''Anchor Interval'' = Some (JNumber x)))"
proof (intro conjI impI ballI)
  fix c
  assume iv: "intervalValueForAirtable (interval b) = Inr (Fin x)"
    and c: "c \<in> set (persistence_log (p0_handler env w (POST b)))"
  from p0_persistence_log_interval[OF c] iv obtain rep
    where "rec_fields c = JSON_stringify (p0_airtablePayload b rep (Fin x) (clock w))" by auto
  then show "map_of (rec_fields c) ''Anchor Interval'' = Some (JNumber x)"
    by (simp add: p0_Anchor_Interval)
next
  fix c
  assume iv: "parseInt (interval b) = Fin x"
    and c: "c \<in> set (persistence_log (gr_handler env w (POST b)))"
  from gr_persistence_log[OF c] obtain rep
    where "rec_fields c = JSON_stringify (gr_airtablePayload b rep)" ..
  then show "map_of (rec_fields c) ''Anchor Interval'' = Some (JNumber x)"
    using iv by (simp add: gr_Anchor_Interval)
next
  assume a: "ip \<noteq> [] \<and> list_all (is_digit 10) ip"
  then have ne: "ip \<noteq> []" and ds: "list_all (is_digit 10) ip" by simp_all
  show "intervalValueForAirtable (Str (ip @ ''+'')) = Inr (number False (of_nat (digits_value 10 ip)))"
    by (rule interval_whole(1)[OF ne ds])
  show "intervalValueForAirtable (Str (ip @ '' per '' @ u)) = Inr (number False (of_nat (digits_value 10 ip)))"
    by (rule interval_whole(2)[OF ne ds])
  show "intervalValueForAirtable (Str ip) = Inr (number False (of_nat (digits_value 10 ip)))"
    by (rule interval_whole(3)[OF ne ds])
  show "parseInt (Str (ip @ ''+'')) = number False (of_nat (digits_value 10 ip))"
    by (rule parseInt_whole[OF ne ds]) simp
  show "parseInt (Str (ip @ '' per '' @ u)) = number False (of_nat (digits_value 10 ip))"
    by (rule parseInt_whole[OF ne ds]) simp
  show "parseInt (Str ip) = number False (of_nat (digits_value 10 ip))"
    using parseInt_whole[OF ne ds, of "[]"] by simp
next
  assume a: "ip \<noteq> [] \<and> list_all (is_digit 10) ip \<and> digits_value 10 ip < 2 ^ 53"
  then have ne: "ip \<noteq> []" and ds: "list_all (is_digit 10) ip"
    and exact: "number False (of_nat (digits_value 10 ip)) = Fin (of_nat (digits_value 10 ip))"
    by (simp_all add: number_of_nat)
  show "intervalValueForAirtable (Str (ip @ ''+'')) = Inr (Fin (of_nat (digits_value 10 ip)))"
    using interval_whole(1)[OF ne ds] by (simp only: exact)
  show "intervalValueForAirtable (Str (ip @ '' per '' @ u)) = Inr (Fin (of_nat (digits_value 10 ip)))"
    using interval_whole(2)[OF ne ds] by (simp only: exact)
  show "intervalValueForAirtable (Str ip) = Inr (Fin (of_nat (digits_value 10 ip)))"
    using interval_whole(3)[OF ne ds] by (simp only: exact)
  show "parseInt (Str (ip @ ''+'')) = Fin (of_nat (digits_value 10 ip))"
    using parseInt_whole[OF ne ds, of "''+''"] by (simp add: exact)
  show "parseInt (Str (ip @ '' per '' @ u)) = Fin (of_nat (digits_value 10 ip))"
    using parseInt_whole[OF ne ds, of "'' per '' @ u"] by (simp add: exact)
  show "parseInt (Str ip) = Fin (of_nat (digits_value 10 ip))"
    using parseInt_whole[OF ne ds, of "[]"] by (simp add: exact)
next
  assume a: "ip \<noteq> [] \<and> list_all (is_digit 10) ip \<and> list_all (is_digit 10) fp
      \<and> digits_value 10 ip < 2 ^ 53"
  then have ne: "ip \<noteq> []" and ds: "list_all (is_digit 10) ip" and fs: "list_all (is_digit 10) fp"
    and exact: "number False (of_nat (digits_value 10 ip)) = Fin (of_nat (digits_value 10 ip))"
    by (simp_all add: number_of_nat)
  show "intervalValueForAirtable (Str (ip @ ''.'' @ fp @ ''+''))
        = Inr (number False (of_nat (digits_value 10 ip) + of_nat (digits_value 10 fp) / 10 ^ length fp))"
    by (rule interval_fraction(1)[OF ne ds fs])
  show "intervalValueForAirtable (Str (ip @ ''.'' @ fp @ '' per '' @ u))
        = Inr (number False (of_nat (digits_value 10 ip) + of_nat (digits_value 10 fp) / 10 ^ length fp))"
    by (rule interval_fraction(2)[OF ne ds fs])
  show "intervalValueForAirtable (Str (ip @ ''.'' @ fp))
        = Inr (number False (of_nat (digits_value 10 ip) + of_nat (digits_value 10 fp) / 10 ^ length fp))"
    by (rule interval_fraction(3)[OF ne ds fs])
  show "parseInt (Str (ip @ ''.'' @ fp @ ''+'')) = Fin (of_nat (digits_value 10 ip))"
    using parseInt_fraction[OF ne ds] by (simp only: exact)
  show "parseInt (Str (ip @ ''.'' @ fp @ '' per '' @ u)) = Fin (of_nat (digits_value 10 ip))"
    using parseInt_fraction[OF ne ds] by (simp only: exact)
  show "parseInt (Str (ip @ ''.'' @ fp)) = Fin (of_nat (digits_value 10 ip))"
    using parseInt_fraction[OF ne ds] by (simp only: exact)
qed

theorem interval_reads_leading_number_witness:
  "intervalValueForAirtable (Str ''200+'') = Inr (Fin 200)
   \<and> intervalValueForAirtable (Str ''1 per 100 ft'') = Inr (Fin 1)
   \<and> intervalValueForAirtable (Str ''150'') = Inr (Fin 150)
   \<and> parseInt (Str ''200+'') = Fin 200
   \<and> parseInt (Str ''1 per 100 ft'') = Fin 1
   \<and> parseInt (Str ''150'') = Fin 150
   \<and> intervalValueForAirtable (Str ''12.5+'') = Inr (Fin (25 / 2))
   \<and> parseInt (Str ''12.5+'') = Fin 12
   \<and> intervalValueForAirtable (Str ''9007199254740993+'') = Inr (Fin 9007199254740992)
   \<and> parseInt (Str ''9007199254740993+'') = Fin 9007199254740992
   \<and> intervalValueForAirtable (interval scenario) = Inr (Fin 150)
   \<and> parseInt (interval scenario) = Fin 150
   \<and> list_all (\<lambda>c. map_of (rec_fields c) ''Anchor Interval'' = Some (JNumber 150))
        (persistence_log (p0_handler settings
           \<lparr>gemini = script [] (answer 200 (JsonDoc (Some ''Report.''))),
            airtable = script [] (answer 200 JsonNull), clock = ''2025-01-02T03:04:05.000Z''\<rparr>
           (POST scenario)))
   \<and> length (persistence_log (p0_handler settings
           \<lparr>gemini = script [] (answer 200 (JsonDoc (Some ''Report.''))),
            airtable = script [] (answer 200 JsonNull), clock = ''2025-01-02T03:04:05.000Z''\<rparr>
           (POST scenario))) = 1
   \<and> list_all (\<lambda>c. map_of (rec_fields c) ''Anchor Interval'' = Some (JNumber 150))
        (persistence_log (gr_handler settings
           \<lparr>gemini = script [] (answer 200 (JsonDoc (Some ''Report.''))),
            airtable = script [] (answer 200 JsonNull), clock = ''2025-01-02T03:04:05.000Z''\<rparr>
           (POST scenario)))
   \<and> length (persistence_log (gr_handler settings
           \<lparr>gemini = script [] (answer 200 (JsonDoc (Some ''Report.''))),
            airtable = script [] (answer 200 JsonNull), clock = ''2025-01-02T03:04:05.000Z''\<rparr>
           (POST scenario))) = 1"
proof -
  let ?w = "\<lparr>gemini = script [] (answer 200 (JsonDoc (Some ''Report.''))),
            airtable = script [] (answer 200 JsonNull), clock = ''2025-01-02T03:04:05.000Z''\<rparr>"
  have d: "digits_value 10 ''200'' = 200" "digits_value 10 ''1'' = 1" "digits_value 10 ''150'' = 150"
    "digits_value 10 ''12'' = 12" "digits_value 10 ''5'' = 5"
    by (simp_all add: digits_value_def digit_of_def)
  have r: "number False (25 / 2) = Fin (25 / 2)"
    by (simp add: round_simps)
  have big: "digits_value 10 ''9007199254740993'' = 9007199254740993"
    by (simp add: digits_value_def digit_of_def)
  have rb: "number False 9007199254740993 = Fin 9007199254740992"
    by (simp add: round_simps)
  have h: "intervalValueForAirtable (Str ''9007199254740993+'') = Inr (Fin 9007199254740992)
      \<and> parseInt (Str ''9007199254740993+'') = Fin 9007199254740992"
    using interval_reads_leading_number[where ip = "''9007199254740993''" and fp = "[]"
        and b = scenario and x = 0]
    by (simp add: is_digit_10 big rb)
  have n1: "length (persistence_log (p0_handler settings ?w (POST scenario))) = 1"
    by (simp add: run_simps intervalValueForAirtable_def)
  have n2: "length (persistence_log (gr_handler settings ?w (POST scenario))) = 1"
    by (simp add: run_simps)
  have a: "intervalValueForAirtable (Str ''200+'') = Inr (Fin 200) \<and> parseInt (Str ''200+'') = Fin 200"
    using interval_reads_leading_number[where ip = "''200''" and fp = "[]" and b = scenario and x = 0]
    by (simp add: is_digit_10 d)
  have b: "intervalValueForAirtable (Str ''1 per 100 ft'') = Inr (Fin 1)
      \<and> parseInt (Str ''1 per 100 ft'') = Fin 1"
    using interval_reads_leading_number[where ip = "''1''" and u = "''100 ft''" and fp = "[]"
        and b = scenario and x = 0]
    by (simp add: is_digit_10 d)
  have c: "intervalValueForAirtable (Str ''12.5+'') = Inr (Fin (25 / 2)) \<and> parseInt (Str ''12.5+'') = Fin 12"
    using interval_reads_leading_number[where ip = "''12''" and fp = "''5''" and b = scenario and x = 0]
    by (simp add: is_digit_10 d r)
  have e: "intervalValueForAirtable (Str ''150'') = Inr (Fin 150) \<and> parseInt (Str ''150'') = Fin 150
      \<and> intervalValueForAirtable (Str ''150+'') = Inr (Fin 150) \<and> parseInt (Str ''150+'') = Fin 150"
    using interval_reads_leading_number[where ip = "''150''" and fp = "[]" and b = scenario and x = 0]
    by (simp add: is_digit_10 d)
  then have i: "intervalValueForAirtable (interval scenario) = Inr (Fin 150)"
    and j: "parseInt (interval scenario) = Fin 150" by simp_all
  from interval_reads_leading_number[where b = scenario and x = 150 and env = settings and w = ?w
      and ip = "''150''" and fp = "[]"] i j
  have "\<forall>c \<in> set (persistence_log (p0_handler settings ?w (POST scenario))).
          map_of (rec_fields c) ''Anchor Interval'' = Some (JNumber 150)"
    and "\<forall>c \<in> set (persistence_log (gr_handler settings ?w (POST scenario))).
          map_of (rec_fields c) ''Anchor Interval'' = Some (JNumber 150)"
    by blast+
  then have f: "list_all (\<lambda>c. map_of (rec_fields c) ''Anchor Interval'' = Some (JNumber 150))
        (persistence_log (p0_handler settings ?w (POST scenario)))"
    and g: "list_all (\<lambda>c. map_of (rec_fields c) ''Anchor Interval'' = Some (JNumber 150))
        (persistence_log (gr_handler settings ?w (POST scenario)))"
    unfolding list_all_iff by blast+
  show ?thesis
    using a b c e h i j f g n1 n2 by blast
qed

text \<open>
  The claim fails on \<^verbatim>\<open>parseInt\<close>: of the interval \<^verbatim>\<open>12.5+\<close>, whose leading number is 12.5,
  the handler of \<^verbatim>\<open>api/generate-report.js\<close> persists 12.
\<close>

theorem interval_counterexample:
  "parseInt (Str ''12.5+'') = Fin 12
   \<and> map_of (JSON_stringify (gr_airtablePayload (scenario\<lparr>interval := Str ''12.5+''\<rparr>) ''Report.''))
        ''Anchor Interval'' = Some (JNumber 12)
   \<and> JNumber 12 \<noteq> JNumber (25 / 2)
   \<and> intervalValueForAirtable (Str ''12.5+'') = Inr (Fin (25 / 2))"
proof -
  have a: "parseInt (Str ''12.5+'') = Fin 12"
    by (simp add: read_simps)
  have b: "intervalValueForAirtable (Str ''12.5+'') = Inr (Fin (25 / 2))"
    by (simp add: intervalValueForAirtable_def read_simps starts_with_def)
  show ?thesis
    using a b by (simp add: gr_Anchor_Interval)
qed

end
